theory Spec2Isabelle
  imports Complex_Main "HOL-Library.Log_Nat"
begin

section \<open>JavaScript numbers\<close>

text \<open>
  The program computes with JavaScript numbers: IEEE 754 doubles. A finite double is a
  rational, \<open>Fin r\<close>; negative zero, the two infinities and NaN are constructors of their
  own. The arithmetic operations compute the exact result and round it to the nearest
  double, a tie going to the even significand, with overflow to an infinity and
  gradual underflow to zero, as the language defines them. They return doubles whatever
  rationals they are given.
\<close>

datatype jsnum = Fin rat | NegZero | PosInf | NegInf | NaN

fun sign_bit :: "jsnum \<Rightarrow> bool" where
  "sign_bit (Fin r) = (r < 0)"
| "sign_bit NegZero = True"
| "sign_bit PosInf = False"
| "sign_bit NegInf = True"
| "sign_bit NaN = False"

fun val :: "jsnum \<Rightarrow> rat" where
  "val (Fin r) = r"
| "val NegZero = 0"
| "val PosInf = 0"
| "val NegInf = 0"
| "val NaN = 0"

fun is_inf :: "jsnum \<Rightarrow> bool" where
  "is_inf PosInf = True"
| "is_inf NegInf = True"
| "is_inf (Fin r) = False"
| "is_inf NegZero = False"
| "is_inf NaN = False"

fun is_zero :: "jsnum \<Rightarrow> bool" where
  "is_zero (Fin r) = (r = 0)"
| "is_zero NegZero = True"
| "is_zero PosInf = False"
| "is_zero NegInf = False"
| "is_zero NaN = False"

definition zero_of :: "bool \<Rightarrow> jsnum" where
  "zero_of neg = (if neg then NegZero else Fin 0)"

definition inf_of :: "bool \<Rightarrow> jsnum" where
  "inf_of neg = (if neg then NegInf else PosInf)"

definition fin_of :: "bool \<Rightarrow> rat \<Rightarrow> jsnum" where
  "fin_of neg r = (if r = 0 then zero_of neg else Fin r)"

text \<open>
  Rounding to binary64. \<open>ilog2 x\<close> is the exponent of the power of two at or below
  \<open>x > 0\<close>; \<open>expo\<close> keeps it at \<open>-1022\<close> or above (the subnormal range shares the
  smallest exponent); \<open>nearest a\<close> is the multiple of \<open>2^(expo a - 52)\<close> closest to
  \<open>a \<ge> 0\<close>, 53 bits of significand; \<open>round_double\<close> gives the result its sign and
  turns what reaches \<open>2^1024\<close> into an infinity.
\<close>

definition ilog2 :: "rat \<Rightarrow> int" where
  "ilog2 x =
     (case quotient_of x of
        (n, d) \<Rightarrow>
          (let k = bitlen n - bitlen d in if 2 powi k \<le> x then k else k - 1))"

definition round_half_even :: "rat \<Rightarrow> int" where
  "round_half_even z =
     (let f = \<lfloor>z\<rfloor>; d = z - of_int f
      in if d < 1 / 2 then f
         else if 1 / 2 < d then f + 1
         else if even f then f else f + 1)"

definition expo :: "rat \<Rightarrow> int" where
  "expo a = max (ilog2 a) (- 1022)"

definition nearest :: "rat \<Rightarrow> rat" where
  "nearest a = (let q = 2 powi (expo a - 52) in of_int (round_half_even (a / q)) * q)"

definition round_double :: "bool \<Rightarrow> rat \<Rightarrow> jsnum" where
  "round_double neg a =
     (let y = nearest a
      in if 2 powi 1024 \<le> y then inf_of neg
         else fin_of neg (if neg then - y else y))"

text \<open>\<^verbatim>\<open>a * b\<close>: the sign is the exclusive or of the signs; infinity times zero is NaN.\<close>

definition js_mul :: "jsnum \<Rightarrow> jsnum \<Rightarrow> jsnum" where
  "js_mul a b =
     (if a = NaN \<or> b = NaN then NaN
      else if is_inf a \<or> is_inf b then
        (if is_zero a \<or> is_zero b then NaN else inf_of (sign_bit a \<noteq> sign_bit b))
      else round_double (sign_bit a \<noteq> sign_bit b) \<bar>val a * val b\<bar>)"

text \<open>
  \<^verbatim>\<open>a / b\<close>: no exception on a zero divisor. A non-zero number over zero is an infinity,
  zero over zero and infinity over infinity are NaN.
\<close>

definition js_div :: "jsnum \<Rightarrow> jsnum \<Rightarrow> jsnum" where
  "js_div a b =
     (if a = NaN \<or> b = NaN then NaN
      else if is_inf a then
        (if is_inf b then NaN else inf_of (sign_bit a \<noteq> sign_bit b))
      else if is_inf b then zero_of (sign_bit a \<noteq> sign_bit b)
      else if is_zero b then
        (if is_zero a then NaN else inf_of (sign_bit a \<noteq> sign_bit b))
      else round_double (sign_bit a \<noteq> sign_bit b) \<bar>val a / val b\<bar>)"

text \<open>\<^verbatim>\<open>a + b\<close>: opposite infinities give NaN; an exact sum of zero is \<open>+0\<close> unless both
  are \<open>-0\<close>.\<close>

definition js_add :: "jsnum \<Rightarrow> jsnum \<Rightarrow> jsnum" where
  "js_add a b =
     (if a = NaN \<or> b = NaN then NaN
      else if is_inf a then (if is_inf b \<and> a \<noteq> b then NaN else a)
      else if is_inf b then b
      else if a = NegZero \<and> b = NegZero then NegZero
      else
        (let s = val a + val b
         in if s = 0 then Fin 0 else round_double (s < 0) \<bar>s\<bar>))"

fun js_neg :: "jsnum \<Rightarrow> jsnum" where
  "js_neg (Fin r) = (if r = 0 then NegZero else Fin (- r))"
| "js_neg NegZero = Fin 0"
| "js_neg PosInf = NegInf"
| "js_neg NegInf = PosInf"
| "js_neg NaN = NaN"

definition js_sub :: "jsnum \<Rightarrow> jsnum \<Rightarrow> jsnum" where
  "js_sub a b = js_add a (js_neg b)"

text \<open>\<^verbatim>\<open>a < b\<close>, \<^verbatim>\<open>a <= b\<close>, \<^verbatim>\<open>a >= b\<close>, \<^verbatim>\<open>a === b\<close>: every comparison with NaN is false, the two
  zeros are equal.\<close>

fun js_lt :: "jsnum \<Rightarrow> jsnum \<Rightarrow> bool" where
  "js_lt NaN b = False"
| "js_lt a NaN = False"
| "js_lt PosInf b = False"
| "js_lt a NegInf = False"
| "js_lt NegInf b = True"
| "js_lt a PosInf = True"
| "js_lt a b = (val a < val b)"

definition js_le :: "jsnum \<Rightarrow> jsnum \<Rightarrow> bool" where
  "js_le a b = (a \<noteq> NaN \<and> b \<noteq> NaN \<and> \<not> js_lt b a)"

definition js_ge :: "jsnum \<Rightarrow> jsnum \<Rightarrow> bool" where
  "js_ge a b = js_le b a"

definition js_strict_eq :: "jsnum \<Rightarrow> jsnum \<Rightarrow> bool" where
  "js_strict_eq a b = (a \<noteq> NaN \<and> b \<noteq> NaN \<and> (a = b \<or> (is_zero a \<and> is_zero b)))"

text \<open>Truthiness of a number (\<^verbatim>\<open>!x\<close>, \<^verbatim>\<open>x || d\<close>): false on the zeros and NaN.\<close>

definition js_truthy :: "jsnum \<Rightarrow> bool" where
  "js_truthy x = (\<not> is_zero x \<and> x \<noteq> NaN)"

text \<open>\<^verbatim>\<open>Math.max\<close>, \<^verbatim>\<open>Math.min\<close> (NaN if an argument is NaN, \<open>-0\<close> below \<open>+0\<close>) and
  \<^verbatim>\<open>Math.round\<close> (nearest integer, a tie goes up; \<open>-0\<close> for values in \<open>[-1/2, 0)\<close>).\<close>

definition Math_max :: "jsnum \<Rightarrow> jsnum \<Rightarrow> jsnum" where
  "Math_max a b =
     (if a = NaN \<or> b = NaN then NaN
      else if js_lt a b then b
      else if js_lt b a then a
      else if a = NegZero then b else a)"

definition Math_min :: "jsnum \<Rightarrow> jsnum \<Rightarrow> jsnum" where
  "Math_min a b =
     (if a = NaN \<or> b = NaN then NaN
      else if js_lt a b then a
      else if js_lt b a then b
      else if b = NegZero then b else a)"

fun Math_round :: "jsnum \<Rightarrow> jsnum" where
  "Math_round (Fin r) =
     (let n = \<lfloor>r + 1 / 2\<rfloor> in if n = 0 \<and> r < 0 then NegZero else Fin (of_int n))"
| "Math_round NegZero = NegZero"
| "Math_round PosInf = PosInf"
| "Math_round NegInf = NegInf"
| "Math_round NaN = NaN"

text \<open>
  \<^verbatim>\<open>Math.pow\<close>, case by case as the language lists them. At finite non-zero arguments
  the language leaves the accuracy of the result to the implementation: at a whole
  exponent the model takes the exact power, rounded; at a fractional exponent the power
  of a rational is no rational in general, and the implementation's value is a
  parameter, \<open>pow_frac\<close>.
\<close>

fun odd_integer :: "jsnum \<Rightarrow> bool" where
  "odd_integer (Fin r) = (of_int \<lfloor>r\<rfloor> = r \<and> odd \<lfloor>r\<rfloor>)"
| "odd_integer NegZero = False"
| "odd_integer PosInf = False"
| "odd_integer NegInf = False"
| "odd_integer NaN = False"

definition Math_pow :: "(rat \<Rightarrow> rat \<Rightarrow> jsnum) \<Rightarrow> jsnum \<Rightarrow> jsnum \<Rightarrow> jsnum" where
  "Math_pow pow_frac b x =
     (if x = NaN then NaN
      else if is_zero x then Fin 1
      else if b = NaN then NaN
      else if is_inf b then
        (if \<not> sign_bit x then inf_of (sign_bit b \<and> odd_integer x)
         else zero_of (sign_bit b \<and> odd_integer x))
      else if is_zero b then
        (if \<not> sign_bit x then zero_of (sign_bit b \<and> odd_integer x)
         else inf_of (sign_bit b \<and> odd_integer x))
      else if is_inf x then
        (if \<bar>val b\<bar> = 1 then NaN
         else if (1 < \<bar>val b\<bar>) = (x = PosInf) then PosInf else Fin 0)
      else if of_int \<lfloor>val x\<rfloor> = val x then
        (let v = val b powi \<lfloor>val x\<rfloor> in round_double (v < 0) \<bar>v\<bar>)
      else if val b < 0 then NaN
      else pow_frac (val b) (val x))"

section \<open>The decision rules of \<^verbatim>\<open>loans.routes.js\<close>\<close>

text \<open>
  Both rules take the parsed payload and read three of its fields. \<open>income\<close> is optional:
  \<open>None\<close> is the missing key, which the default parameter turns into \<open>0\<close>.
\<close>

record engine_args =
  income :: "rat option"
  amount :: rat
  term_months :: rat

definition isAdmissible :: "'a engine_args_scheme \<Rightarrow> bool" where
  "isAdmissible p =
     (let income0 = (case income p of None \<Rightarrow> 0 | Some i \<Rightarrow> i)
      in if \<not> js_truthy (Fin income0) then False
         else js_le (Fin (amount p)) (js_mul (Fin income0) (Fin 20)))"

definition computeScore :: "'a engine_args_scheme \<Rightarrow> jsnum" where
  "computeScore p =
     (let income0 = (case income p of None \<Rightarrow> 0 | Some i \<Rightarrow> i);
          term = (if js_truthy (Fin (term_months p)) then term_months p else 24);
          base = js_add (Fin 60) (js_div (Fin income0) (js_div (Fin (amount p)) (Fin term)));
          s = Math_round (Math_max (Fin 1) (Math_min (Fin 100) base))
      in s)"

text \<open>The score as the specification words it: the base rounded to the nearest
  integer, then clamped to \<open>[1, 100]\<close>.\<close>

definition round_then_clamp :: "jsnum \<Rightarrow> jsnum" where
  "round_then_clamp base = Math_max (Fin 1) (Math_min (Fin 100) (Math_round base))"

section \<open>The helpers of the loan request view\<close>

text \<open>
  The client keeps its own copies of the helpers. The rate is optional and defaults to
  the double nearest to \<open>0.019\<close>.
\<close>

definition clamp :: "jsnum \<Rightarrow> jsnum \<Rightarrow> jsnum \<Rightarrow> jsnum" where
  "clamp n mn mx = Math_min mx (Math_max mn n)"

definition estimateMonthlyPayment ::
    "(rat \<Rightarrow> rat \<Rightarrow> jsnum) \<Rightarrow> jsnum \<Rightarrow> jsnum \<Rightarrow> jsnum option \<Rightarrow> jsnum" where
  "estimateMonthlyPayment pow_frac capital meses tasa =
     (let tasaMensual = (case tasa of None \<Rightarrow> round_double False (19 / 1000) | Some t \<Rightarrow> t)
      in if \<not> js_truthy capital \<or> \<not> js_truthy meses then Fin 0
         else if js_strict_eq tasaMensual (Fin 0)
           then Math_round (js_div capital meses)
         else
           (let r = tasaMensual;
                cuota = js_div (js_mul capital r)
                          (js_sub (Fin 1) (Math_pow pow_frac (js_add (Fin 1) r) (js_neg meses)))
            in Math_round cuota))"

definition computeScore_client :: "rat \<Rightarrow> rat \<Rightarrow> rat \<Rightarrow> jsnum" where
  "computeScore_client ingreso monto term =
     (let safeTerm = (if js_truthy (Fin term) then term else 24)
      in if \<not> js_truthy (Fin monto) \<or> js_lt (Fin ingreso) (Fin 0) then Fin 1
         else
           (let base = js_add (Fin 60) (js_div (Fin ingreso) (js_div (Fin monto) (Fin safeTerm)))
            in clamp (Math_round base) (Fin 1) (Fin 100)))"

section \<open>Validation of the request body\<close>

text \<open>
  The body of the request is a JSON object; a key it does not have reads as
  \<open>JUndefined\<close>. \<open>ApplySchema\<close> is the zod schema of the route. The test zod applies to
  an e-mail address is not part of the repository and is a parameter, \<open>isEmail\<close>. A failed
  parse reports the offending fields in the order of the schema (the keys of zod's
  flattened \<open>fieldErrors\<close>; its message texts are left out).
\<close>

datatype jsval =
    JUndefined
  | JNull
  | JBool bool
  | JNum rat
  | JStr string
  | JArr "jsval list"
  | JObj "(string \<times> jsval) list"

definition get_prop :: "(string \<rightharpoonup> jsval) \<Rightarrow> string \<Rightarrow> jsval" where
  "get_prop b k = (case b k of None \<Rightarrow> JUndefined | Some v \<Rightarrow> v)"

record payload = engine_args +
  rut :: string
  full_name :: string
  email :: string

fun z_string_min :: "nat \<Rightarrow> jsval \<Rightarrow> string option" where
  "z_string_min n (JStr s) = (if n \<le> length s then Some s else None)"
| "z_string_min n v = None"

fun z_string_email :: "(string \<Rightarrow> bool) \<Rightarrow> jsval \<Rightarrow> string option" where
  "z_string_email isEmail (JStr s) = (if isEmail s then Some s else None)"
| "z_string_email isEmail v = None"

fun z_number_positive :: "jsval \<Rightarrow> rat option" where
  "z_number_positive (JNum r) = (if 0 < r then Some r else None)"
| "z_number_positive v = None"

fun z_number_int_positive :: "jsval \<Rightarrow> rat option" where
  "z_number_int_positive (JNum r) =
     (if of_int \<lfloor>r\<rfloor> = r \<and> 0 < r then Some r else None)"
| "z_number_int_positive v = None"

fun z_number_positive_optional :: "jsval \<Rightarrow> rat option option" where
  "z_number_positive_optional JUndefined = Some None"
| "z_number_positive_optional v = map_option Some (z_number_positive v)"

definition issue :: "string \<Rightarrow> 'a option \<Rightarrow> string list" where
  "issue k r = (case r of None \<Rightarrow> [k] | Some v \<Rightarrow> [])"

definition ApplySchema_safeParse ::
    "(string \<Rightarrow> bool) \<Rightarrow> (string \<rightharpoonup> jsval) \<Rightarrow> string list + payload" where
  "ApplySchema_safeParse isEmail b =
     (let r = z_string_min 3 (get_prop b ''rut'');
          f = z_string_min 3 (get_prop b ''full_name'');
          e = z_string_email isEmail (get_prop b ''email'');
          a = z_number_positive (get_prop b ''amount'');
          t = z_number_int_positive (get_prop b ''term_months'');
          i = z_number_positive_optional (get_prop b ''income'')
      in case (r, f, e, a, t, i) of
           (Some r', Some f', Some e', Some a', Some t', Some i') \<Rightarrow>
             Inr \<lparr>income = i', amount = a', term_months = t',
                  rut = r', full_name = f', email = e'\<rparr>
         | _ \<Rightarrow>
             Inl (issue ''rut'' r @ issue ''full_name'' f @ issue ''email'' e
                  @ issue ''amount'' a @ issue ''term_months'' t @ issue ''income'' i))"

section \<open>The table of loan requests\<close>

text \<open>
  A row of \<^verbatim>\<open>loan_requests\<close>, without its two timestamps. A table that does not exist
  yet is the empty list of rows, which is what \<^verbatim>\<open>CREATE TABLE IF NOT EXISTS\<close> makes of
  it before any other statement runs. \<open>next_id\<close> is the next value of the \<^verbatim>\<open>SERIAL\<close>
  column.

  Every statement can be refused by the database server (it is unreachable, or a value
  does not fit its column). That is the environment's choice, given by three flags, one
  for each statement of the route; a refused statement changes nothing and makes
  \<^verbatim>\<open>pool.query\<close> throw.
\<close>

record loan_row =
  row_id :: nat
  row_rut :: string
  row_full_name :: string
  row_email :: string
  row_amount :: rat
  row_term_months :: rat
  row_income :: "rat option"
  status :: string
  scoring :: "int option"

record db =
  rows :: "loan_row list"
  next_id :: nat

record faults =
  ensure_fails :: bool
  insert_fails :: bool
  update_fails :: bool

datatype db_error = Db_error

definition empty_db :: db where
  "empty_db = \<lparr>rows = [], next_id = 1\<rparr>"

definition no_faults :: faults where
  "no_faults = \<lparr>ensure_fails = False, insert_fails = False, update_fails = False\<rparr>"

definition ensureTables :: "faults \<Rightarrow> db \<Rightarrow> db_error + db" where
  "ensureTables fl d = (if ensure_fails fl then Inl Db_error else Inr d)"

text \<open>\<^verbatim>\<open>NUMERIC(14,2)\<close> keeps two decimals, rounding a tie away from zero.\<close>

definition numeric_2 :: "rat \<Rightarrow> rat" where
  "numeric_2 r =
     (if 0 \<le> r then of_int \<lfloor>r * 100 + 1 / 2\<rfloor> / 100
      else - (of_int \<lfloor>- r * 100 + 1 / 2\<rfloor> / 100))"

text \<open>\<^verbatim>\<open>INSERT ... VALUES (..., 'pendiente') RETURNING *\<close>: the row it stores, and the
  statement, which returns the new row in a list.\<close>

definition new_row :: "nat \<Rightarrow> payload \<Rightarrow> string \<Rightarrow> int option \<Rightarrow> loan_row" where
  "new_row i p st v =
     \<lparr>row_id = i, row_rut = rut p, row_full_name = full_name p,
      row_email = email p, row_amount = numeric_2 (amount p),
      row_term_months = term_months p,
      row_income = map_option numeric_2 (income p),
      status = st, scoring = v\<rparr>"

definition insert_request :: "faults \<Rightarrow> db \<Rightarrow> payload \<Rightarrow> db_error + (db \<times> loan_row list)" where
  "insert_request fl d p =
     (if insert_fails fl then Inl Db_error
      else
        (let row = new_row (next_id d) p ''pendiente'' None
         in Inr (d\<lparr>rows := rows d @ [row], next_id := next_id d + 1\<rparr>, [row])))"

text \<open>The value of a number bound to the \<^verbatim>\<open>INT\<close> column \<^verbatim>\<open>scoring\<close>: whole and of 32 bits,
  or the statement is refused.\<close>

fun to_int4 :: "jsnum \<Rightarrow> int option" where
  "to_int4 (Fin r) =
     (if of_int \<lfloor>r\<rfloor> = r \<and> - (2 ^ 31) \<le> \<lfloor>r\<rfloor> \<and> \<lfloor>r\<rfloor> < 2 ^ 31 then Some \<lfloor>r\<rfloor> else None)"
| "to_int4 NegZero = Some 0"
| "to_int4 PosInf = None"
| "to_int4 NegInf = None"
| "to_int4 NaN = None"

text \<open>\<^verbatim>\<open>UPDATE ... SET status=$1, scoring=$2 WHERE id=$3 RETURNING ...\<close>: what the
  statement does to one row, and the statement, which returns the rows it changed.\<close>

definition set_decision :: "string \<Rightarrow> int option \<Rightarrow> nat \<Rightarrow> loan_row \<Rightarrow> loan_row" where
  "set_decision st v i r = (if row_id r = i then r\<lparr>status := st, scoring := v\<rparr> else r)"

definition update_decision ::
    "faults \<Rightarrow> db \<Rightarrow> string \<Rightarrow> jsnum option \<Rightarrow> nat \<Rightarrow> db_error + (db \<times> loan_row list)" where
  "update_decision fl d st sc i =
     (if update_fails fl then Inl Db_error
      else
        (case (case sc of None \<Rightarrow> Some None | Some s \<Rightarrow> map_option Some (to_int4 s)) of
           None \<Rightarrow> Inl Db_error
         | Some v \<Rightarrow>
             (let d' = d\<lparr>rows := map (set_decision st v i) (rows d)\<rparr>
              in Inr (d', filter (\<lambda>r. row_id r = i) (rows d')))))"

section \<open>The route \<^verbatim>\<open>POST /loans/apply\<close>\<close>

text \<open>
  The decision of the route: the status and the score it assigns to a parsed payload.
  The third component lists the rules the decision called, in order.
\<close>

datatype call = Call_isAdmissible | Call_computeScore

definition decision :: "payload \<Rightarrow> string \<times> jsnum option \<times> call list" where
  "decision p =
     (if isAdmissible p then
        (let sc = computeScore p
         in (if js_ge sc (Fin 55) then ''aprobada'' else ''rechazada'',
             Some sc, [Call_isAdmissible, Call_computeScore]))
      else (''inadmisible'', None, [Call_isAdmissible]))"

text \<open>
  What a request leaves behind: the HTTP status and the JSON object sent back, the
  table afterwards, and the rules that were called. Anything thrown inside the handler
  is caught and answered with 500.
\<close>

record outcome =
  response_code :: nat
  response_body :: "(string \<times> jsval) list"
  db_after :: db
  engine_calls :: "call list"

definition internal_error :: "db \<Rightarrow> call list \<Rightarrow> outcome" where
  "internal_error d cs =
     \<lparr>response_code = 500, response_body = [(''error'', JStr ''internal_error'')],
      db_after = d, engine_calls = cs\<rparr>"

definition apply_route ::
    "faults \<Rightarrow> (string \<Rightarrow> bool) \<Rightarrow> db \<Rightarrow> (string \<rightharpoonup> jsval) \<Rightarrow> outcome" where
  "apply_route fl isEmail d body =
     (case ensureTables fl d of
        Inl err \<Rightarrow> internal_error d []
      | Inr d1 \<Rightarrow>
          (case ApplySchema_safeParse isEmail body of
             Inl issues \<Rightarrow>
               \<lparr>response_code = 400,
                response_body = [(''error'', JStr ''invalid_payload''),
                                 (''details'', JArr (map JStr issues))],
                db_after = d1, engine_calls = []\<rparr>
           | Inr p \<Rightarrow>
               (case insert_request fl d1 p of
                  Inl err \<Rightarrow> internal_error d1 []
                | Inr (d2, inserted) \<Rightarrow>
                    (case decision p of
                       (st, sc, cs) \<Rightarrow>
                         (case inserted of
                            [] \<Rightarrow> internal_error d2 cs
                          | reqRow # rest \<Rightarrow>
                              (case update_decision fl d2 st sc (row_id reqRow) of
                                 Inl err \<Rightarrow> internal_error d2 cs
                               | Inr (d3, updated) \<Rightarrow>
                                   (case updated of
                                      [] \<Rightarrow> internal_error d3 cs
                                    | u # rest' \<Rightarrow>
                                        \<lparr>response_code = 201,
                                         response_body =
                                           [(''id'', JNum (of_nat (row_id reqRow))),
                                            (''status'', JStr (status u)),
                                            (''scoring'',
                                               (case scoring u of
                                                  None \<Rightarrow> JNull
                                                | Some k \<Rightarrow> JNum (of_int k)))],
                                         db_after = d3, engine_calls = cs\<rparr>)))))))"

section \<open>Requests in sequence, and the invariant of the table\<close>

text \<open>The server answering a list of requests one after the other, each with the
  faults the environment chose for it.\<close>

fun serve :: "(string \<Rightarrow> bool) \<Rightarrow> db \<Rightarrow> (faults \<times> (string \<rightharpoonup> jsval)) list \<Rightarrow> db" where
  "serve isEmail d [] = d"
| "serve isEmail d ((fl, body) # reqs) =
     serve isEmail (db_after (apply_route fl isEmail d body)) reqs"

text \<open>A row is consistent when its score goes with its status.\<close>

definition row_ok :: "loan_row \<Rightarrow> bool" where
  "row_ok r =
     ((status r = ''pendiente'' \<and> scoring r = None)
      \<or> (status r = ''inadmisible'' \<and> scoring r = None)
      \<or> ((status r = ''rechazada'' \<or> status r = ''aprobada'')
          \<and> (case scoring r of None \<Rightarrow> False | Some s \<Rightarrow> 1 \<le> s \<and> s \<le> 100)))"

section \<open>A sample request\<close>

text \<open>A stand-in for zod's e-mail test, one for the implementation's power at a
  fractional exponent, and a request body, for the examples below.\<close>

definition sample_pow_frac :: "rat \<Rightarrow> rat \<Rightarrow> jsnum" where
  "sample_pow_frac b x = NaN"

definition sample_isEmail :: "string \<Rightarrow> bool" where
  "sample_isEmail s = (CHR ''@'' \<in> set s)"

definition sample_body :: "string \<rightharpoonup> jsval" where
  "sample_body =
     [''rut'' \<mapsto> JStr ''11.111.111-1'', ''full_name'' \<mapsto> JStr ''Ana Soto'',
      ''email'' \<mapsto> JStr ''ana@example.com'', ''amount'' \<mapsto> JNum 500000,
      ''term_months'' \<mapsto> JNum 12]"

section \<open>Rounding to the nearest double\<close>

lemma two_powi_pos: "0 < (2::rat) powi k"
  by simp

lemma two_powi_less: "i < j \<Longrightarrow> (2::rat) powi i < 2 powi j"
  by (rule power_int_strict_increasing) simp_all

lemma two_powi_le: "i \<le> j \<Longrightarrow> (2::rat) powi i \<le> 2 powi j"
  by (rule power_int_increasing) simp_all

lemma two_powi_less_iff: "(2::rat) powi i < 2 powi j \<longleftrightarrow> i < j"
  by (metis two_powi_less two_powi_le not_less)

lemma two_powi_add: "(2::rat) powi i * 2 powi j = 2 powi (i + j)"
  by (simp add: power_int_add)

lemma two_powi_diff: "(2::rat) powi (i - j) = 2 powi i / 2 powi j"
  by (simp add: power_int_diff)

lemma of_int_bitlen_bounds:
  assumes "0 < n"
  shows "2 powi (bitlen n - 1) \<le> (of_int n :: rat)" and "(of_int n :: rat) < 2 powi bitlen n"
proof -
  from bitlen_bounds [OF assms] have a: "2 ^ nat (bitlen n - 1) \<le> n" and b: "n < 2 ^ nat (bitlen n)"
    by simp_all
  have p: "1 \<le> bitlen n"
    using assms by (simp add: bitlen_alt_def)
  have "(of_int (2 ^ nat (bitlen n - 1)) :: rat) \<le> of_int n"
    using a by (simp only: of_int_le_iff)
  then show "2 powi (bitlen n - 1) \<le> (of_int n :: rat)"
    using p by (simp add: power_int_def)
  have "(of_int n :: rat) < of_int (2 ^ nat (bitlen n))"
    using b by (simp only: of_int_less_iff)
  then show "(of_int n :: rat) < 2 powi bitlen n"
    using p by (simp add: power_int_def)
qed

lemma ilog2_bounds:
  assumes "0 < x"
  shows "2 powi ilog2 x \<le> x" and "x < 2 powi (ilog2 x + 1)"
proof -
  obtain n d where q: "quotient_of x = (n, d)"
    by (cases "quotient_of x")
  have d: "0 < d" using q by (rule quotient_of_denom_pos)
  have x: "x = of_int n / of_int d" using q by (rule quotient_of_div)
  have n: "0 < n"
    using assms d unfolding x by (simp add: zero_less_divide_iff)
  let ?k = "bitlen n - bitlen d"
  have "x < 2 powi bitlen n / 2 powi (bitlen d - 1)"
    unfolding x
    using of_int_bitlen_bounds [OF n] of_int_bitlen_bounds [OF d] d n
    by (intro frac_less) simp_all
  then have up: "x < 2 powi (?k + 1)"
    by (simp add: two_powi_diff [symmetric] algebra_simps)
  have "2 powi (bitlen n - 1) / 2 powi bitlen d < x"
    unfolding x
    using of_int_bitlen_bounds [OF n] of_int_bitlen_bounds [OF d] d n
    by (intro frac_less2) simp_all
  then have lo: "2 powi (?k - 1) < x"
    by (simp add: two_powi_diff [symmetric] algebra_simps)
  have i: "ilog2 x = (if 2 powi ?k \<le> x then ?k else ?k - 1)"
    by (simp add: ilog2_def q Let_def)
  show "2 powi ilog2 x \<le> x"
    using lo by (simp add: i)
  show "x < 2 powi (ilog2 x + 1)"
    using up by (simp add: i)
qed

lemma ilog2_unique:
  assumes "2 powi e \<le> x" and "x < 2 powi (e + 1)"
  shows "ilog2 x = e"
proof -
  have p: "0 < x" using two_powi_pos assms(1) by (rule less_le_trans)
  note b = ilog2_bounds [OF p]
  have "2 powi e < (2::rat) powi (ilog2 x + 1)"
    using assms(1) b(2) by simp
  then have "e < ilog2 x + 1" by (simp only: two_powi_less_iff)
  moreover have "2 powi ilog2 x < (2::rat) powi (e + 1)"
    using assms(2) b(1) by simp
  then have "ilog2 x < e + 1" by (simp only: two_powi_less_iff)
  ultimately show ?thesis by simp
qed

lemma rhe_of_int: "round_half_even (of_int k) = k"
  by (simp add: round_half_even_def)

lemma rhe_floor: "\<lfloor>z\<rfloor> \<le> round_half_even z" and rhe_floor_Suc: "round_half_even z \<le> \<lfloor>z\<rfloor> + 1"
  by (simp_all add: round_half_even_def Let_def)

lemma rhe_mono:
  assumes "x \<le> y"
  shows "round_half_even x \<le> round_half_even y"
proof (cases "\<lfloor>x\<rfloor> = \<lfloor>y\<rfloor>")
  case True
  have "x - of_int \<lfloor>x\<rfloor> \<le> y - of_int \<lfloor>y\<rfloor>"
    using assms True by simp
  then show ?thesis
    using True by (simp add: round_half_even_def Let_def)
next
  case False
  have "\<lfloor>x\<rfloor> \<le> \<lfloor>y\<rfloor>" using assms by (rule floor_mono)
  with False have "\<lfloor>x\<rfloor> + 1 \<le> \<lfloor>y\<rfloor>" by simp
  with rhe_floor_Suc [of x] rhe_floor [of y] show ?thesis by linarith
qed

lemma rhe_le_int: "z \<le> of_int k \<Longrightarrow> round_half_even z \<le> k"
  using rhe_mono [of z "of_int k"] by (simp add: rhe_of_int)

lemma rhe_ge_int: "of_int k \<le> z \<Longrightarrow> k \<le> round_half_even z"
  using rhe_mono [of "of_int k" z] by (simp add: rhe_of_int)


lemma expo_ge: "- 1022 \<le> expo a"
  by (simp add: expo_def)

lemma expo_upper:
  assumes "0 \<le> a"
  shows "a < 2 powi (expo a + 1)"
proof (cases "a = 0")
  case True
  then show ?thesis by simp
next
  case False
  with assms have "0 < a" by simp
  then have "a < 2 powi (ilog2 a + 1)" by (rule ilog2_bounds)
  also have "\<dots> \<le> 2 powi (expo a + 1)"
    by (rule two_powi_le) (simp add: expo_def)
  finally show ?thesis .
qed

lemma expo_lower:
  assumes "0 < a" and "- 1022 < expo a"
  shows "2 powi expo a \<le> a"
proof -
  have "expo a = ilog2 a"
    using assms(2) by (simp add: expo_def max_def split: if_splits)
  then show ?thesis
    using ilog2_bounds(1) [OF assms(1)] by simp
qed

lemma expo_mono:
  assumes "0 < a" and "a \<le> b"
  shows "expo a \<le> expo b"
proof (rule ccontr)
  assume "\<not> expo a \<le> expo b"
  then have lt: "expo b < expo a" by simp
  with expo_ge [of b] have "- 1022 < expo a" by linarith
  then have "2 powi expo a \<le> a"
    using assms(1) by (intro expo_lower)
  moreover have "b < 2 powi (expo b + 1)"
    using assms by (intro expo_upper) simp
  moreover have "(2::rat) powi (expo b + 1) \<le> 2 powi expo a"
    using lt by (intro two_powi_le) simp
  ultimately show False using assms(2) by linarith
qed

lemma expo_eq:
  assumes "2 powi e \<le> a" and "a < 2 powi (e + 1)" and "- 1022 \<le> e"
  shows "expo a = e"
  using ilog2_unique [OF assms(1,2)] assms(3) by (simp add: expo_def)


lemma nearest_eval:
  assumes "2 powi e \<le> a" and "a < 2 powi (e + 1)" and "- 1022 \<le> e"
  shows "nearest a = of_int (round_half_even (a / 2 powi (e - 52))) * 2 powi (e - 52)"
  by (simp add: nearest_def Let_def expo_eq [OF assms])

lemma nearest_0: "nearest 0 = 0"
  by (simp add: nearest_def Let_def rhe_of_int [of 0, simplified])


lemma nearest_nonneg:
  assumes "0 \<le> a"
  shows "0 \<le> nearest a"
proof -
  have "(of_int 0 :: rat) \<le> a / 2 powi (expo a - 52)"
    using assms by simp
  then have "0 \<le> round_half_even (a / 2 powi (expo a - 52))"
    by (rule rhe_ge_int)
  then show ?thesis
    by (simp add: nearest_def Let_def)
qed

lemma nearest_upper:
  assumes "0 \<le> a"
  shows "nearest a \<le> 2 powi (expo a + 1)"
proof -
  let ?q = "(2::rat) powi (expo a - 52)"
  have "a / ?q \<le> 2 powi (expo a + 1) / ?q"
    using expo_upper [OF assms] by (intro divide_right_mono) simp_all
  also have "\<dots> = 2 powi 53"
    by (simp add: two_powi_diff [symmetric])
  also have "\<dots> = of_int (2 ^ 53)"
    by simp
  finally have "round_half_even (a / ?q) \<le> 2 ^ 53"
    by (rule rhe_le_int)
  then have "(of_int (round_half_even (a / ?q)) :: rat) \<le> of_int (2 ^ 53)"
    by (simp only: of_int_le_iff)
  then have "of_int (round_half_even (a / ?q)) * ?q \<le> of_int (2 ^ 53) * ?q"
    by (intro mult_right_mono) simp_all
  also have "of_int (2 ^ 53) * ?q = 2 powi 53 * ?q"
    by simp
  also have "\<dots> = 2 powi (53 + (expo a - 52))"
    by (rule two_powi_add)
  also have "53 + (expo a - 52) = expo a + 1"
    by simp
  finally show ?thesis
    by (simp add: nearest_def Let_def)
qed

lemma nearest_lower:
  assumes "0 < a" and "- 1022 < expo a"
  shows "2 powi expo a \<le> nearest a"
proof -
  let ?q = "(2::rat) powi (expo a - 52)"
  let ?m = "round_half_even (a / ?q)"
  have "2 powi expo a / ?q \<le> a / ?q"
    using expo_lower [OF assms] by (intro divide_right_mono) simp_all
  moreover have "2 powi expo a / ?q = 2 powi 52"
    by (simp add: two_powi_diff [symmetric])
  moreover have "(2::rat) powi 52 = of_int (2 ^ 52)"
    by simp
  ultimately have "of_int (2 ^ 52) \<le> a / ?q"
    by simp
  then have "2 ^ 52 \<le> ?m"
    by (rule rhe_ge_int)
  then have "(of_int (2 ^ 52) :: rat) \<le> of_int ?m"
    by (simp only: of_int_le_iff)
  then have le: "of_int (2 ^ 52) * ?q \<le> of_int ?m * ?q"
    by (intro mult_right_mono) simp_all
  have "2 powi expo a = 2 powi (52 + (expo a - 52))"
    by simp
  also have "\<dots> = 2 powi 52 * ?q"
    by (rule two_powi_add [symmetric])
  also have "\<dots> = of_int (2 ^ 52) * ?q"
    by simp
  also note le
  finally show ?thesis
    by (simp add: nearest_def Let_def)
qed

lemma nearest_mono:
  assumes "0 \<le> a" and "a \<le> b"
  shows "nearest a \<le> nearest b"
proof (cases "a = 0")
  case True
  with assms show ?thesis
    by (simp add: nearest_0 nearest_nonneg)
next
  case False
  with assms have a: "0 < a" and b: "0 < b" by simp_all
  show ?thesis
  proof (cases "expo a = expo b")
    case True
    have "a / 2 powi (expo b - 52) \<le> b / 2 powi (expo b - 52)"
      using assms(2) by (intro divide_right_mono) simp_all
    then have "round_half_even (a / 2 powi (expo b - 52))
        \<le> round_half_even (b / 2 powi (expo b - 52))"
      by (rule rhe_mono)
    then have "of_int (round_half_even (a / 2 powi (expo b - 52))) * (2::rat) powi (expo b - 52)
        \<le> of_int (round_half_even (b / 2 powi (expo b - 52))) * 2 powi (expo b - 52)"
      by (intro mult_right_mono) simp_all
    then show ?thesis
      by (simp add: nearest_def Let_def True)
  next
    case False
    with expo_mono [OF a assms(2)] have lt: "expo a < expo b" by simp
    with expo_ge [of a] have "- 1022 < expo b" by linarith
    then have "2 powi expo b \<le> nearest b"
      using b by (intro nearest_lower)
    moreover have "nearest a \<le> 2 powi (expo a + 1)"
      using assms(1) by (rule nearest_upper)
    moreover have "(2::rat) powi (expo a + 1) \<le> 2 powi expo b"
      using lt by (intro two_powi_le) simp
    ultimately show ?thesis by linarith
  qed
qed

text \<open>A number with a significand of 53 bits and an exponent in range is a double.\<close>

lemma nearest_exact:
  assumes "a = of_int m * 2 powi j" and "0 < m" and "m < 2 ^ 53" and "- 1074 \<le> j"
  shows "nearest a = a"
proof -
  have a: "0 < a" using assms(1,2) by simp
  have "(of_int m :: rat) < of_int (2 ^ 53)"
    using assms(3) by (simp only: of_int_less_iff)
  then have "a < of_int (2 ^ 53) * 2 powi j"
    unfolding assms(1) by (intro mult_strict_right_mono) simp_all
  also have "of_int (2 ^ 53) * (2::rat) powi j = 2 powi 53 * 2 powi j"
    by simp
  also have "\<dots> = 2 powi (53 + j)"
    by (rule two_powi_add)
  finally have up: "a < 2 powi (53 + j)" .
  have e: "expo a - 52 \<le> j"
  proof (cases "- 1022 < expo a")
    case True
    have "2 powi expo a \<le> a" using a True by (rule expo_lower)
    with up have "(2::rat) powi expo a < 2 powi (53 + j)" by simp
    then have "expo a < 53 + j" by (simp only: two_powi_less_iff)
    then show ?thesis by simp
  next
    case False
    with expo_ge [of a] have "expo a = - 1022" by simp
    with assms(4) show ?thesis by simp
  qed
  define k where "k = nat (j - (expo a - 52))"
  define q :: rat where "q = 2 powi (expo a - 52)"
  have j: "j = int k + (expo a - 52)"
    using e by (simp add: k_def)
  have "(2::rat) powi j = 2 powi int k * q"
    unfolding q_def by (subst j) (rule two_powi_add [symmetric])
  then have pj: "(2::rat) powi j = of_int (2 ^ k) * q"
    by simp
  have q: "0 < q" by (simp add: q_def)
  have aq: "a = of_int (m * 2 ^ k) * q"
    by (simp add: assms(1) pj)
  then have "a / q = of_int (m * 2 ^ k)"
    using q by simp
  then have "round_half_even (a / q) = m * 2 ^ k"
    by (simp only: rhe_of_int)
  then have "nearest a = of_int (m * 2 ^ k) * q"
    by (simp add: nearest_def Let_def q_def)
  with aq show ?thesis by simp
qed

lemma nearest_of_int:
  assumes "0 \<le> k" and "k < 2 ^ 53"
  shows "nearest (of_int k) = of_int k"
proof (cases "k = 0")
  case True
  then show ?thesis by (simp add: nearest_0)
next
  case False
  with assms(1) have "0 < k" by simp
  then show ?thesis
    using assms(2) by (intro nearest_exact [where m = k and j = 0]) simp_all
qed

lemma nearest_numeral: "numeral w < (2::int) ^ 53 \<Longrightarrow> nearest (numeral w) = numeral w"
  using nearest_of_int [of "numeral w"] by simp

lemma nearest_1: "nearest 1 = 1"
  using nearest_of_int [of 1] by simp

text \<open>The rounded value, with its sign.\<close>

lemma round_double_False:
  "round_double False a = (if 2 powi 1024 \<le> nearest a then PosInf else Fin (nearest a))"
  by (simp add: round_double_def Let_def inf_of_def fin_of_def zero_of_def)

lemma round_double_True:
  "round_double True a =
     (if 2 powi 1024 \<le> nearest a then NegInf
      else if nearest a = 0 then NegZero else Fin (- nearest a))"
  by (simp add: round_double_def Let_def inf_of_def fin_of_def zero_of_def)

lemma round_double_not_NaN: "round_double neg a \<noteq> NaN"
  by (cases neg) (simp_all add: round_double_False round_double_True)

lemma round_double_exact:
  assumes "nearest a = a" and "a < 2 powi 1024"
  shows "round_double False a = Fin a"
  using assms by (simp add: round_double_False)

lemma floor_rat_numeral_div:
  "\<lfloor>numeral a / numeral b :: rat\<rfloor> = numeral a div numeral b"
  by (metis floor_divide_of_int_eq of_int_numeral)

lemma floor_rat_one_div: "\<lfloor>1 / numeral b :: rat\<rfloor> = 1 div numeral b"
  by (metis floor_divide_of_int_eq of_int_1 of_int_numeral)

lemma floor_rat_minus_numeral_div:
  "\<lfloor>- (numeral a / numeral b) :: rat\<rfloor> = - numeral a div numeral b"
  by (metis divide_minus_left floor_divide_of_int_eq of_int_neg_numeral of_int_numeral)

lemmas floor_rat = floor_rat_numeral_div floor_rat_one_div floor_rat_minus_numeral_div

lemmas rhe_eval = round_half_even_def Let_def floor_rat



section \<open>The operations on finite numbers\<close>

lemma js_div_Fin:
  "b \<noteq> 0 \<Longrightarrow> js_div (Fin a) (Fin b) = round_double ((a < 0) \<noteq> (b < 0)) \<bar>a / b\<bar>"
  by (simp add: js_div_def)

lemma js_div_Fin_pos:
  "0 < b \<Longrightarrow> 0 \<le> a \<Longrightarrow> js_div (Fin a) (Fin b) = round_double False (a / b)"
  by (simp add: js_div_def)

lemma js_mul_Fin:
  "js_mul (Fin a) (Fin b) = round_double ((a < 0) \<noteq> (b < 0)) \<bar>a * b\<bar>"
  by (simp add: js_mul_def)

lemma js_add_Fin:
  "js_add (Fin a) (Fin b) = (if a + b = 0 then Fin 0 else round_double (a + b < 0) \<bar>a + b\<bar>)"
  by (simp add: js_add_def Let_def)



lemma is_zero_round_double: "is_zero (round_double neg a) \<longleftrightarrow> nearest a = 0"
  by (cases neg) (auto simp: round_double_False round_double_True)

lemma js_le_Fin: "js_le (Fin a) (Fin b) = (a \<le> b)"
  by (auto simp: js_le_def)

lemma js_ge_Fin: "js_ge (Fin a) (Fin b) = (b \<le> a)"
  by (simp add: js_ge_def js_le_Fin)

lemma js_lt_not_ge: "js_lt a b \<Longrightarrow> \<not> js_ge a b"
  by (simp add: js_ge_def js_le_def)

lemma js_truthy_Fin: "js_truthy (Fin a) = (a \<noteq> 0)"
  by (simp add: js_truthy_def)

lemma Math_min_Fin: "Math_min (Fin a) (Fin b) = Fin (min a b)"
  by (auto simp: Math_min_def min_def)

lemma Math_max_Fin: "Math_max (Fin a) (Fin b) = Fin (max a b)"
  by (auto simp: Math_max_def max_def)

lemma Math_round_Fin_nonneg: "0 \<le> r \<Longrightarrow> Math_round (Fin r) = Fin (of_int (round r))"
  by (simp add: round_def Let_def)

lemma round_max: "round (max x y) = max (round x) (round y)"
  by (simp add: max_def round_mono) (meson round_mono linear order_antisym)

lemma round_min: "round (min x y) = min (round x) (round y)"
  by (simp add: min_def round_mono) (meson round_mono linear order_antisym)

text \<open>Clamping and rounding, in either order, on every number.\<close>

lemma round_then_clamp_cases:
  "round_then_clamp b =
     (case b of
        Fin r \<Rightarrow> Fin (of_int (max 1 (min 100 (round r))))
      | NegZero \<Rightarrow> Fin 1 | PosInf \<Rightarrow> Fin 100 | NegInf \<Rightarrow> Fin 1 | NaN \<Rightarrow> NaN)"
proof (cases b)
  case (Fin r)
  show ?thesis
  proof (cases "round r = 0 \<and> r < 0")
    case True
    then have "Math_round (Fin r) = NegZero" by (simp add: round_def)
    with True Fin show ?thesis
      by (simp add: round_then_clamp_def Math_min_def Math_max_def)
  next
    case False
    then have "Math_round (Fin r) = Fin (of_int (round r))"
      by (auto simp: round_def Let_def)
    with Fin show ?thesis
      by (simp add: round_then_clamp_def Math_min_Fin Math_max_Fin min_def max_def)
  qed
qed (simp_all add: round_then_clamp_def Math_min_def Math_max_def)

lemma clamp_then_round:
  "Math_round (Math_max (Fin 1) (Math_min (Fin 100) b)) = round_then_clamp b"
proof (cases b)
  case (Fin r)
  have "Math_round (Fin (max 1 (min 100 r))) = Fin (of_int (round (max 1 (min 100 r))))"
    by (rule Math_round_Fin_nonneg) simp
  with Fin show ?thesis
    by (simp add: round_then_clamp_cases Math_min_Fin Math_max_Fin round_max round_min)
qed (simp_all add: round_then_clamp_cases Math_min_def Math_max_def floor_rat)

lemma client_clamp: "clamp (Math_round b) (Fin 1) (Fin 100) = round_then_clamp b"
proof (cases b)
  case (Fin r)
  show ?thesis
  proof (cases "round r = 0 \<and> r < 0")
    case True
    then have "Math_round (Fin r) = NegZero" by (simp add: round_def)
    with True Fin show ?thesis
      by (simp add: round_then_clamp_cases clamp_def Math_min_def Math_max_def)
  next
    case False
    then have "Math_round (Fin r) = Fin (of_int (round r))"
      by (auto simp: round_def Let_def)
    with Fin show ?thesis
      by (simp add: round_then_clamp_cases clamp_def Math_min_Fin Math_max_Fin min_def max_def)
  qed
qed (simp_all add: round_then_clamp_cases clamp_def Math_min_def Math_max_def)


lemma nearest_at:
  assumes "2 powi e \<le> a" and "a < 2 powi (e + 1)" and "- 1022 \<le> e"
    and "round_half_even (a / 2 powi (e - 52)) = m" and "of_int m * 2 powi (e - 52) = y"
  shows "nearest a = y"
  using nearest_eval [OF assms(1-3)] assms(4,5) by simp

lemmas eval_simps = rhe_eval power_int_minus

section \<open>The score function\<close>


lemma computeScore_base:
  assumes "income p = Some i" and "term_months p \<noteq> 0"
  shows "computeScore p =
           round_then_clamp
             (js_add (Fin 60) (js_div (Fin i) (js_div (Fin (amount p)) (Fin (term_months p)))))"
  using assms by (simp add: computeScore_def js_truthy_Fin clamp_then_round)

lemma computeScore_client_base:
  assumes "0 \<le> i" and "a \<noteq> 0" and "t \<noteq> 0"
  shows "computeScore_client i a t =
           round_then_clamp (js_add (Fin 60) (js_div (Fin i) (js_div (Fin a) (Fin t))))"
proof -
  have "\<not> js_lt (Fin i) (Fin 0)" using assms(1) by simp
  then show ?thesis
    using assms(2,3) by (simp add: computeScore_client_def js_truthy_Fin client_clamp)
qed





lemmas js_eval = js_div_Fin_pos js_add_Fin round_double_False nearest_numeral nearest_1
  nearest_0 round_then_clamp_cases



section \<open>The admissibility rule\<close>

lemma js_le_round_double_False:
  "js_le (Fin a) (round_double False x) \<longleftrightarrow> a \<le> nearest x \<or> 2 powi 1024 \<le> nearest x"
  by (auto simp: round_double_False js_le_def)

lemma js_le_round_double_True:
  assumes "0 < a" and "0 \<le> x"
  shows "\<not> js_le (Fin a) (round_double True x)"
proof -
  have "0 \<le> nearest x" using assms(2) by (rule nearest_nonneg)
  with assms(1) show ?thesis
    by (auto simp: round_double_True js_le_def)
qed

text \<open>
  C2, as amended. For every positive amount, \<open>isAdmissible\<close> is false when the income is
  absent, zero or negative, and for every income \<open>> 0\<close> it is true if and only if
  \<open>amount \<le> income * 20\<close> with the product computed in double arithmetic: the amount is at
  most the double nearest to \<open>income * 20\<close>, or the product overflows to \<open>Infinity\<close>.
\<close>

theorem isAdmissible_rule:
  assumes "0 < amount p"
  shows "(income p = None \<longrightarrow> \<not> isAdmissible p)
       \<and> (\<forall>i. income p = Some i \<and> i \<le> 0 \<longrightarrow> \<not> isAdmissible p)
       \<and> (\<forall>i. income p = Some i \<and> 0 < i \<longrightarrow>
             (isAdmissible p \<longleftrightarrow> js_le (Fin (amount p)) (js_mul (Fin i) (Fin 20)))
             \<and> (isAdmissible p \<longleftrightarrow>
                  amount p \<le> nearest (i * 20) \<or> 2 powi 1024 \<le> nearest (i * 20)))"
proof (intro conjI allI impI)
  assume "income p = None"
  then show "\<not> isAdmissible p"
    by (simp add: isAdmissible_def js_truthy_Fin)
next
  fix i assume h: "income p = Some i \<and> i \<le> 0"
  show "\<not> isAdmissible p"
  proof (cases "i = 0")
    case True
    with h show ?thesis by (simp add: isAdmissible_def js_truthy_Fin)
  next
    case False
    with h have "js_mul (Fin i) (Fin 20) = round_double True \<bar>i * 20\<bar>"
      by (simp add: js_mul_Fin)
    moreover have "\<not> js_le (Fin (amount p)) (round_double True \<bar>i * 20\<bar>)"
      using assms by (intro js_le_round_double_True) simp_all
    ultimately show ?thesis
      using h False by (simp add: isAdmissible_def js_truthy_Fin)
  qed
next
  fix i assume h: "income p = Some i \<and> 0 < i"
  then show "isAdmissible p \<longleftrightarrow> js_le (Fin (amount p)) (js_mul (Fin i) (Fin 20))"
    by (simp add: isAdmissible_def js_truthy_Fin)
next
  fix i assume h: "income p = Some i \<and> 0 < i"
  then have "js_mul (Fin i) (Fin 20) = round_double False (i * 20)"
    by (simp add: js_mul_Fin abs_mult)
  with h show "isAdmissible p \<longleftrightarrow>
                  amount p \<le> nearest (i * 20) \<or> 2 powi 1024 \<le> nearest (i * 20)"
    by (simp add: isAdmissible_def js_truthy_Fin js_le_round_double_False)
qed

lemma nearest_three_tenths_product: "nearest (5404319552844595 / 2 ^ 54 * 20) = 6"
  by (rule nearest_at [where e = 2 and m = 6755399441055744]) (simp_all add: eval_simps)

theorem isAdmissible_rule_witness:
  "\<not> isAdmissible \<lparr>income = None, amount = 500000, term_months = 12\<rparr>
   \<and> \<not> isAdmissible \<lparr>income = Some 0, amount = 500000, term_months = 12\<rparr>
   \<and> \<not> isAdmissible \<lparr>income = Some (- 3), amount = 500000, term_months = 12\<rparr>
   \<and> isAdmissible \<lparr>income = Some 1000000, amount = 1500000, term_months = 24\<rparr>
   \<and> isAdmissible \<lparr>income = Some 25000, amount = 500000, term_months = 12\<rparr>
   \<and> \<not> isAdmissible \<lparr>income = Some 100000, amount = 3000000, term_months = 36\<rparr>"
  using isAdmissible_rule [of "\<lparr>income = None, amount = 500000, term_months = 12\<rparr>"]
    isAdmissible_rule [of "\<lparr>income = Some 0, amount = 500000, term_months = 12\<rparr>"]
    isAdmissible_rule [of "\<lparr>income = Some (- 3), amount = 500000, term_months = 12\<rparr>"]
    isAdmissible_rule [of "\<lparr>income = Some 1000000, amount = 1500000, term_months = 24\<rparr>"]
    isAdmissible_rule [of "\<lparr>income = Some 25000, amount = 500000, term_months = 12\<rparr>"]
    isAdmissible_rule [of "\<lparr>income = Some 100000, amount = 3000000, term_months = 36\<rparr>"]
  by (simp add: nearest_numeral js_mul_Fin round_double_False js_le_Fin)

text \<open>
  C2 as first stated compares the amount with the exact product. With the income the
  double nearest to \<open>0.3\<close> and an amount of 6 the product rounds up to 6 and the
  application is admissible, although the amount exceeds the exact \<open>income * 20\<close>.
\<close>

theorem isAdmissible_rounded_product_counterexample:
  "isAdmissible \<lparr>income = Some (5404319552844595 / 2 ^ 54), amount = 6, term_months = 1\<rparr>
   \<and> \<not> (6 :: rat) \<le> 5404319552844595 / 2 ^ 54 * 20"
proof
  have "js_mul (Fin (5404319552844595 / 2 ^ 54)) (Fin 20) = Fin 6"
    using nearest_three_tenths_product by (simp add: js_mul_Fin round_double_False)
  then show "isAdmissible \<lparr>income = Some (5404319552844595 / 2 ^ 54), amount = 6,
                           term_months = 1\<rparr>"
    by (simp add: isAdmissible_def js_truthy_Fin js_le_Fin)
  show "\<not> (6 :: rat) \<le> 5404319552844595 / 2 ^ 54 * 20"
    by simp
qed

section \<open>The client's copy of the score\<close>




section \<open>The monthly payment\<close>

lemma js_div_NaN_iff:
  "js_div a b = NaN \<longleftrightarrow>
     a = NaN \<or> b = NaN \<or> (is_inf a \<and> is_inf b) \<or> (is_zero a \<and> is_zero b)"
  by (cases a; cases b)
     (simp_all add: js_div_def round_double_not_NaN inf_of_def zero_of_def)

lemma Math_round_NaN_iff: "Math_round x = NaN \<longleftrightarrow> x = NaN"
  by (cases x) (simp_all add: Let_def)

lemma js_strict_eq_refl: "x \<noteq> NaN \<Longrightarrow> js_strict_eq x x"
  by (simp add: js_strict_eq_def)

lemma is_zero_js_div:
  assumes "is_zero a" and "b \<noteq> NaN" and "\<not> is_zero b"
  shows "is_zero (js_div a b)"
proof -
  have a: "a \<noteq> NaN" "\<not> is_inf a" "val a = 0"
    using assms(1) by (cases a; simp)+
  show ?thesis
  proof (cases "is_inf b")
    case True
    with a assms show ?thesis by (simp add: js_div_def zero_of_def)
  next
    case False
    with a assms show ?thesis
      by (simp add: js_div_def is_zero_round_double nearest_0)
  qed
qed

lemma is_zero_Math_round: "is_zero x \<Longrightarrow> is_zero (Math_round x)"
  by (cases x) (simp_all add: floor_rat)

lemma js_strict_eq_zero: "is_zero x \<Longrightarrow> js_strict_eq (Fin 0) x"
  by (cases x) (simp_all add: js_strict_eq_def)

lemma js_truthy_iff: "js_truthy x \<longleftrightarrow> \<not> is_zero x \<and> x \<noteq> NaN"
  by (simp add: js_truthy_def)

lemma js_strict_eq_zero_iff: "js_strict_eq r (Fin 0) \<longleftrightarrow> is_zero r"
  by (cases r) (simp_all add: js_strict_eq_def)

text \<open>
  C8, as amended. For every principal and every termMonths \<open>n\<close> that are numbers (not
  NaN), \<open>n\<close> other than zero and the two not both infinite,
  \<open>estimateMonthlyPayment(principal, n, 0) === Math.round(principal / n)\<close>, the quotient
  being the double the division returns; for every termMonths and rate
  \<open>estimateMonthlyPayment(0, termMonths, rate)\<close> is \<open>0\<close>, and for every principal and rate
  \<open>estimateMonthlyPayment(principal, 0, rate)\<close> is \<open>0\<close>.
\<close>

theorem estimateMonthlyPayment_zero_rate:
  "(is_zero r \<and> p \<noteq> NaN \<and> n \<noteq> NaN \<and> \<not> is_zero n \<and> \<not> (is_inf p \<and> is_inf n) \<longrightarrow>
      js_strict_eq (estimateMonthlyPayment pow_frac p n (Some r)) (Math_round (js_div p n)))
   \<and> (is_zero p \<longrightarrow> estimateMonthlyPayment pow_frac p n t = Fin 0)
   \<and> (is_zero n \<longrightarrow> estimateMonthlyPayment pow_frac p n t = Fin 0)"
proof (intro conjI impI)
  assume h: "is_zero r \<and> p \<noteq> NaN \<and> n \<noteq> NaN \<and> \<not> is_zero n \<and> \<not> (is_inf p \<and> is_inf n)"
  show "js_strict_eq (estimateMonthlyPayment pow_frac p n (Some r)) (Math_round (js_div p n))"
  proof (cases "is_zero p")
    case True
    then have "estimateMonthlyPayment pow_frac p n (Some r) = Fin 0"
      by (simp add: estimateMonthlyPayment_def js_truthy_iff)
    moreover have "is_zero (Math_round (js_div p n))"
      using True h by (intro is_zero_Math_round is_zero_js_div) simp_all
    ultimately show ?thesis
      by (simp add: js_strict_eq_zero)
  next
    case False
    with h have "estimateMonthlyPayment pow_frac p n (Some r) = Math_round (js_div p n)"
      by (simp add: estimateMonthlyPayment_def js_truthy_iff js_strict_eq_zero_iff)
    moreover have "Math_round (js_div p n) \<noteq> NaN"
      using False h by (simp add: Math_round_NaN_iff js_div_NaN_iff)
    ultimately show ?thesis
      by (simp add: js_strict_eq_refl)
  qed
next
  assume "is_zero p"
  then show "estimateMonthlyPayment pow_frac p n t = Fin 0"
    by (simp add: estimateMonthlyPayment_def js_truthy_iff)
next
  assume "is_zero n"
  then show "estimateMonthlyPayment pow_frac p n t = Fin 0"
    by (simp add: estimateMonthlyPayment_def js_truthy_iff)
qed

lemma nearest_quotient_third: "nearest (6755399441055745 / 3) = 4503599627370497 / 2"
  by (rule nearest_at [where e = 51 and m = 4503599627370497]) (simp_all add: eval_simps)

theorem estimateMonthlyPayment_zero_rate_witness:
  "js_strict_eq (estimateMonthlyPayment sample_pow_frac (Fin 1500000) (Fin 24) (Some (Fin 0)))
     (Fin 62500)
   \<and> estimateMonthlyPayment sample_pow_frac (Fin 0) (Fin 24) None = Fin 0
   \<and> estimateMonthlyPayment sample_pow_frac (Fin 1500000) (Fin 0) (Some (Fin 0)) = Fin 0"
  using estimateMonthlyPayment_zero_rate
      [of "Fin 0" "Fin 1500000" "Fin 24" sample_pow_frac None]
    estimateMonthlyPayment_zero_rate
      [of "Fin 0" "Fin 0" "Fin 24" sample_pow_frac None]
    estimateMonthlyPayment_zero_rate
      [of "Fin 0" "Fin 1500000" "Fin 0" sample_pow_frac "Some (Fin 0)"]
  by (simp add: js_eval round_def floor_rat)

text \<open>
  C8 as first stated rounds the exact quotient, for every principal and term. The
  code rounds the double the division returns: a principal of 6755399441055745 over 3
  months gives 2251799813685249, where the exact quotient rounds to 2251799813685248.
  With a principal that is NaN the guard answers \<open>0\<close> while \<open>Math.round(NaN / 3)\<close> is
  NaN. At a term of \<open>0\<close>, where the guard answers \<open>0\<close> as the claim's last part says,
  \<open>Math.round(5 / 0)\<close> is \<open>Infinity\<close>.
\<close>

theorem estimateMonthlyPayment_zero_rate_counterexample:
  "estimateMonthlyPayment sample_pow_frac (Fin 6755399441055745) (Fin 3) (Some (Fin 0))
     = Fin 2251799813685249
   \<and> round (6755399441055745 / 3 :: rat) = 2251799813685248
   \<and> estimateMonthlyPayment sample_pow_frac NaN (Fin 3) (Some (Fin 0)) = Fin 0
   \<and> Math_round (js_div NaN (Fin 3)) = NaN
   \<and> estimateMonthlyPayment sample_pow_frac (Fin 5) (Fin 0) (Some (Fin 0)) = Fin 0
   \<and> Math_round (js_div (Fin 5) (Fin 0)) = PosInf"
proof (intro conjI)
  have "js_div (Fin 6755399441055745) (Fin 3) = Fin (4503599627370497 / 2)"
    using nearest_quotient_third by (simp add: js_div_Fin_pos round_double_False)
  then show "estimateMonthlyPayment sample_pow_frac (Fin 6755399441055745) (Fin 3) (Some (Fin 0))
     = Fin 2251799813685249"
    by (simp add: estimateMonthlyPayment_def js_truthy_iff js_strict_eq_zero_iff floor_rat)
  show "round (6755399441055745 / 3 :: rat) = 2251799813685248"
    by (simp add: round_def floor_rat)
  show "estimateMonthlyPayment sample_pow_frac NaN (Fin 3) (Some (Fin 0)) = Fin 0"
    by (simp add: estimateMonthlyPayment_def js_truthy_iff)
  show "Math_round (js_div NaN (Fin 3)) = NaN"
    by (simp add: js_div_def)
  show "estimateMonthlyPayment sample_pow_frac (Fin 5) (Fin 0) (Some (Fin 0)) = Fin 0"
    by (simp add: estimateMonthlyPayment_def js_truthy_iff)
  show "Math_round (js_div (Fin 5) (Fin 0)) = PosInf"
    by (simp add: js_div_def inf_of_def)
qed







lemma round_double_False_cases:
  assumes "0 \<le> a"
  obtains "round_double False a = PosInf" | y where "round_double False a = Fin y" and "0 \<le> y"
  using nearest_nonneg [OF assms] by (cases "2 powi 1024 \<le> nearest a") (simp_all add: round_double_False)


















lemma nearest_test_burden: "nearest (100000 / 12) = 4581298449066667 / 2 ^ 39"
  by (rule nearest_at [where e = 13 and m = 4581298449066667]) (simp_all add: eval_simps)

lemma nearest_test_ratio: "nearest (10000000 / (4581298449066667 / 2 ^ 39)) = 1200"
  by (rule nearest_at [where e = 10 and m = 5277655813324800]) (simp_all add: eval_simps)

lemma test_burden: "js_div (Fin 100000) (Fin 12) = Fin (4581298449066667 / 549755813888)"
  using nearest_test_burden by (simp add: js_div_Fin_pos round_double_False)

lemma test_ratio: "js_div (Fin 10000000) (Fin (4581298449066667 / 549755813888)) = Fin 1200"
  using nearest_test_ratio by (simp add: js_div_Fin_pos round_double_False)

text \<open>The five assertions of the view's own self-tests hold of the model.\<close>

lemma loan_ui_self_tests:
  "js_strict_eq (estimateMonthlyPayment pow_frac (Fin 1500000) (Fin 24) (Some (Fin 0))) (Fin 62500)"
  "js_strict_eq (estimateMonthlyPayment pow_frac (Fin 0) (Fin 24) None) (Fin 0)"
  "js_strict_eq (computeScore_client 1000000 1500000 24) (Fin 76)"
  "js_strict_eq (computeScore_client 10000000 100000 12) (Fin 100)"
  "js_strict_eq (computeScore_client (- 1) 0 12) (Fin 1)"
proof -
  show "js_strict_eq (estimateMonthlyPayment pow_frac (Fin 1500000) (Fin 24) (Some (Fin 0))) (Fin 62500)"
    by (simp add: estimateMonthlyPayment_def js_truthy_Fin js_strict_eq_def js_div_Fin_pos
        round_double_False nearest_numeral Math_round_Fin_nonneg floor_rat)
  show "js_strict_eq (estimateMonthlyPayment pow_frac (Fin 0) (Fin 24) None) (Fin 0)"
    by (simp add: estimateMonthlyPayment_def js_truthy_Fin js_strict_eq_def)
  have "computeScore_client 1000000 1500000 24 = Fin 76"
    using computeScore_client_base [of 1000000 1500000 24]
    by (simp add: js_div_Fin_pos js_add_Fin round_double_False nearest_numeral
        round_then_clamp_cases)
  then show "js_strict_eq (computeScore_client 1000000 1500000 24) (Fin 76)"
    by (simp add: js_strict_eq_def)
  have "js_add (Fin 60) (Fin 1200) = Fin 1260"
    by (simp add: js_add_Fin round_double_False nearest_numeral)
  then have "computeScore_client 10000000 100000 12 = Fin 100"
    using computeScore_client_base [of 10000000 100000 12]
    by (simp add: test_burden test_ratio round_then_clamp_cases)
  then show "js_strict_eq (computeScore_client 10000000 100000 12) (Fin 100)"
    by (simp add: js_strict_eq_def)
  show "js_strict_eq (computeScore_client (- 1) 0 12) (Fin 1)"
    by (simp add: computeScore_client_def js_truthy_Fin js_strict_eq_def)
qed

section \<open>Validation, case by case\<close>

lemma z_number_positive_Some: "z_number_positive v = Some r \<Longrightarrow> v = JNum r \<and> 0 < r"
  by (cases v) (auto split: if_splits)

lemma z_number_int_positive_Some:
  "z_number_int_positive v = Some r \<Longrightarrow> v = JNum r \<and> 0 < r \<and> of_int \<lfloor>r\<rfloor> = r"
  by (cases v) (auto split: if_splits)

lemma z_number_positive_optional_Some:
  "z_number_positive_optional v = Some i \<Longrightarrow>
     (v = JUndefined \<and> i = None) \<or> (\<exists>r. v = JNum r \<and> 0 < r \<and> i = Some r)"
  by (cases v) (auto split: if_splits)

lemma safeParse_Inr:
  assumes "ApplySchema_safeParse isEmail b = Inr p"
  shows "z_string_min 3 (get_prop b ''rut'') = Some (rut p)
       \<and> z_string_min 3 (get_prop b ''full_name'') = Some (full_name p)
       \<and> z_string_email isEmail (get_prop b ''email'') = Some (email p)
       \<and> z_number_positive (get_prop b ''amount'') = Some (amount p)
       \<and> z_number_int_positive (get_prop b ''term_months'') = Some (term_months p)
       \<and> z_number_positive_optional (get_prop b ''income'') = Some (income p)"
  using assms
  by (auto simp: ApplySchema_safeParse_def Let_def split: option.splits)

lemma safeParse_Inr_ranges:
  assumes "ApplySchema_safeParse isEmail b = Inr p"
  shows "0 < amount p \<and> 0 < term_months p \<and> (\<forall>i. income p = Some i \<longrightarrow> 0 < i)"
  using safeParse_Inr [OF assms]
  by (auto dest!: z_number_positive_Some z_number_int_positive_Some
      z_number_positive_optional_Some)

lemma safeParse_Inl:
  assumes "ApplySchema_safeParse isEmail b = Inl issues"
  shows "issues \<noteq> []"
  using assms
  by (auto simp: ApplySchema_safeParse_def Let_def issue_def split: option.splits)

section \<open>The decision on a parsed payload\<close>

lemma computeScore_admissible:
  assumes "0 < amount p" and "0 < term_months p" and "income p = Some i" and "0 < i"
  shows "\<exists>n. 60 \<le> n \<and> n \<le> 100 \<and> computeScore p = Fin (of_int n)"
proof -
  let ?q = "js_div (Fin (amount p)) (Fin (term_months p))"
  let ?x = "js_div (Fin i) ?q"
  let ?b = "js_add (Fin 60) ?x"
  have cs: "computeScore p = round_then_clamp ?b"
    using assms(2,3) by (intro computeScore_base) simp_all
  have q: "?q = round_double False (amount p / term_months p)"
    using assms(1,2) by (simp add: js_div_Fin_pos)
  have "0 \<le> amount p / term_months p" using assms(1,2) by simp
  then have x: "?x = PosInf \<or> (\<exists>z. ?x = Fin z \<and> 0 \<le> z)"
  proof (cases rule: round_double_False_cases)
    case 1
    then have "?q = PosInf" by (simp only: q)
    then have "?x = Fin 0"
      using assms(4) by (simp only:) (simp add: js_div_def zero_of_def)
    then show ?thesis by simp
  next
    case (2 y)
    then have qy: "?q = Fin y" by (simp only: q)
    show ?thesis
    proof (cases "y = 0")
      case True
      with assms(4) show ?thesis by (simp only: qy) (simp add: js_div_def inf_of_def)
    next
      case False
      with 2 have y: "0 < y" by simp
      then have "0 \<le> i / y" using assms(4) by simp
      then show ?thesis
      proof (cases rule: round_double_False_cases)
        case 1
        with y assms(4) show ?thesis by (simp only: qy) (simp add: js_div_Fin_pos)
      next
        case (2 z)
        with y assms(4) show ?thesis by (simp only: qy) (simp add: js_div_Fin_pos)
      qed
    qed
  qed
  have b: "?b = PosInf \<or> (\<exists>w. ?b = Fin w \<and> 60 \<le> w)"
    using x
  proof (elim disjE exE conjE)
    assume "?x = PosInf"
    then show ?thesis by (simp only:) (simp add: js_add_def)
  next
    fix z assume z: "?x = Fin z" "0 \<le> z"
    have "nearest 60 \<le> nearest (60 + z)"
      using z(2) by (intro nearest_mono) simp_all
    moreover have "nearest 60 = 60" by (rule nearest_numeral) simp
    ultimately have "60 \<le> nearest (60 + z)" by simp
    moreover have "js_add (Fin 60) (Fin z) = round_double False (60 + z)"
      using z(2) by (simp add: js_add_Fin)
    then have "?b = round_double False (60 + z)"
      by (simp only: z(1))
    ultimately show ?thesis
      by (simp add: round_double_False)
  qed
  show ?thesis
    using b
  proof (elim disjE exE conjE)
    assume "?b = PosInf"
    then have "computeScore p = Fin (of_int 100)"
      by (simp only: cs) (simp add: round_then_clamp_cases)
    then show ?thesis by (intro exI [of _ 100]) simp
  next
    fix w :: rat assume w: "?b = Fin w" "60 \<le> w"
    have "round (60::rat) \<le> round w" using w(2) by (rule round_mono)
    then have "60 \<le> max 1 (min 100 (round w))" by simp
    moreover have "max 1 (min 100 (round w)) \<le> 100" by simp
    moreover have "computeScore p = Fin (of_int (max 1 (min 100 (round w))))"
      by (simp only: cs w(1)) (simp add: round_then_clamp_cases)
    ultimately show ?thesis by blast
  qed
qed

lemma isAdmissible_income: "isAdmissible p \<Longrightarrow> \<exists>i. income p = Some i \<and> i \<noteq> 0"
  by (cases "income p") (auto simp: isAdmissible_def js_truthy_Fin split: if_splits)

lemma decision_parsed:
  assumes "0 < amount p" and "0 < term_months p" and "\<forall>i. income p = Some i \<longrightarrow> 0 < i"
  shows "(\<not> isAdmissible p \<and> decision p = (''inadmisible'', None, [Call_isAdmissible]))
       \<or> (\<exists>n. isAdmissible p \<and> 60 \<le> n \<and> n \<le> 100
             \<and> decision p = (''aprobada'', Some (Fin (of_int n)),
                              [Call_isAdmissible, Call_computeScore]))"
proof (cases "isAdmissible p")
  case False
  then show ?thesis by (simp add: decision_def)
next
  case True
  then obtain i where i: "income p = Some i" "i \<noteq> 0"
    using isAdmissible_income by blast
  with assms(3) have "0 < i" by simp
  with assms(1,2) i(1) obtain n where n: "60 \<le> n" "n \<le> 100" "computeScore p = Fin (of_int n)"
    using computeScore_admissible by blast
  then have "js_ge (computeScore p) (Fin 55)"
    by (simp add: js_ge_Fin)
  with True n show ?thesis
    by (simp add: decision_def Let_def)
qed

text \<open>The decision of a parsed payload, with the score as the \<^verbatim>\<open>INT\<close> column takes it.\<close>

lemma decision_stored:
  assumes "ApplySchema_safeParse isEmail body = Inr p"
  shows "\<exists>st sc cs v. decision p = (st, sc, cs)
           \<and> (case sc of None \<Rightarrow> Some None | Some s \<Rightarrow> map_option Some (to_int4 s)) = Some v
           \<and> ((st = ''inadmisible'' \<and> v = None)
              \<or> (st = ''aprobada'' \<and> (\<exists>n. v = Some n \<and> 60 \<le> n \<and> n \<le> 100)))"
proof -
  from safeParse_Inr_ranges [OF assms] decision_parsed [of p]
  consider "decision p = (''inadmisible'', None, [Call_isAdmissible])"
    | n where "60 \<le> n" "n \<le> 100"
        "decision p = (''aprobada'', Some (Fin (of_int n)), [Call_isAdmissible, Call_computeScore])"
    by blast
  then show ?thesis
  proof cases
    case 1
    then show ?thesis by simp
  next
    case 2
    then show ?thesis by simp
  qed
qed

section \<open>The statements and the route, case by case\<close>

lemma row_id_set_decision: "row_id (set_decision st v i r) = row_id r"
  by (simp add: set_decision_def)

lemma set_decision_hit:
  "row_id r = i \<Longrightarrow> status (set_decision st v i r) = st \<and> scoring (set_decision st v i r) = v"
  by (simp add: set_decision_def)

lemma update_decision_eq:
  assumes "\<not> update_fails fl"
    and "(case sc of None \<Rightarrow> Some None | Some s \<Rightarrow> map_option Some (to_int4 s)) = Some v"
  shows "update_decision fl d2 st sc i =
           Inr (d2\<lparr>rows := map (set_decision st v i) (rows d2)\<rparr>,
                filter (\<lambda>r. row_id r = i) (map (set_decision st v i) (rows d2)))"
  using assms by (simp add: update_decision_def Let_def)

lemma updated_head:
  assumes "r0 \<in> set rs" and "row_id r0 = i"
  shows "\<exists>u rest. filter (\<lambda>r. row_id r = i) (map (set_decision st v i) rs) = u # rest
           \<and> status u = st \<and> scoring u = v"
proof -
  let ?updated = "filter (\<lambda>r. row_id r = i) (map (set_decision st v i) rs)"
  have "set_decision st v i r0 \<in> set ?updated"
    using assms by (simp add: row_id_set_decision)
  then obtain u rest where ur: "?updated = u # rest"
    by (cases ?updated) simp_all
  then have "u \<in> set ?updated" by simp
  then obtain r where "r \<in> set rs" and "u = set_decision st v i r" and "row_id u = i"
    by auto
  then have "status u = st \<and> scoring u = v"
    by (simp add: row_id_set_decision set_decision_hit)
  with ur show ?thesis by blast
qed

lemma apply_route_ensure_fails:
  "ensure_fails fl \<Longrightarrow> apply_route fl isEmail d body = internal_error d []"
  by (simp add: apply_route_def ensureTables_def)

lemma apply_route_invalid:
  assumes "\<not> ensure_fails fl" and "ApplySchema_safeParse isEmail body = Inl issues"
  shows "apply_route fl isEmail d body =
           \<lparr>response_code = 400,
            response_body = [(''error'', JStr ''invalid_payload''),
                             (''details'', JArr (map JStr issues))],
            db_after = d, engine_calls = []\<rparr>"
  using assms by (simp add: apply_route_def ensureTables_def)

lemma apply_route_insert_fails:
  assumes "\<not> ensure_fails fl" and "ApplySchema_safeParse isEmail body = Inr p"
    and "insert_fails fl"
  shows "apply_route fl isEmail d body = internal_error d []"
  using assms by (simp add: apply_route_def ensureTables_def insert_request_def)

lemma apply_route_update_fails:
  assumes "\<not> ensure_fails fl" and "ApplySchema_safeParse isEmail body = Inr p"
    and "\<not> insert_fails fl" and "update_fails fl" and "decision p = (st, sc, cs)"
  shows "apply_route fl isEmail d body =
           internal_error
             (d\<lparr>rows := rows d @ [new_row (next_id d) p ''pendiente'' None],
                next_id := next_id d + 1\<rparr>) cs"
  using assms
  by (simp add: apply_route_def ensureTables_def insert_request_def Let_def
      update_decision_def)

lemma apply_route_created:
  assumes "\<not> ensure_fails fl" and "\<not> insert_fails fl" and "\<not> update_fails fl"
    and "ApplySchema_safeParse isEmail body = Inr p"
    and "decision p = (st, sc, cs)"
    and "(case sc of None \<Rightarrow> Some None | Some s \<Rightarrow> map_option Some (to_int4 s)) = Some v"
  shows "apply_route fl isEmail d body =
     \<lparr>response_code = 201,
      response_body = [(''id'', JNum (of_nat (next_id d))), (''status'', JStr st),
                       (''scoring'', (case v of None \<Rightarrow> JNull | Some k \<Rightarrow> JNum (of_int k)))],
      db_after =
        \<lparr>rows = map (set_decision st v (next_id d)) (rows d) @ [new_row (next_id d) p st v],
         next_id = next_id d + 1\<rparr>,
      engine_calls = cs\<rparr>"
proof -
  define i where "i = next_id d"
  define row where "row = new_row i p ''pendiente'' None"
  define d2 where "d2 = d\<lparr>rows := rows d @ [row], next_id := i + 1\<rparr>"
  have ri: "row_id row = i" by (simp add: row_def new_row_def)
  have ins: "insert_request fl d p = Inr (d2, [row])"
    using assms(2) by (simp add: insert_request_def Let_def d2_def row_def i_def)
  have "row \<in> set (rows d2)" by (simp add: d2_def)
  from updated_head [OF this ri, of st v]
  obtain u rest where
    ur: "filter (\<lambda>r. row_id r = i) (map (set_decision st v i) (rows d2)) = u # rest"
    and u: "status u = st" "scoring u = v"
    by blast
  have upd: "update_decision fl d2 st sc i
               = Inr (d2\<lparr>rows := map (set_decision st v i) (rows d2)\<rparr>, u # rest)"
    using update_decision_eq [OF assms(3) assms(6), of d2 st i] ur by simp
  have "apply_route fl isEmail d body =
     \<lparr>response_code = 201,
      response_body = [(''id'', JNum (of_nat (row_id row))), (''status'', JStr (status u)),
                       (''scoring'', (case scoring u of None \<Rightarrow> JNull | Some k \<Rightarrow> JNum (of_int k)))],
      db_after = d2\<lparr>rows := map (set_decision st v i) (rows d2)\<rparr>, engine_calls = cs\<rparr>"
    unfolding apply_route_def ensureTables_def
    by (simp only: assms(1,4,5) ins ri upd if_False sum.case prod.case list.case)
  moreover have "set_decision st v i row = new_row i p st v"
    by (simp add: set_decision_def row_def new_row_def)
  then have "d2\<lparr>rows := map (set_decision st v i) (rows d2)\<rparr>
      = \<lparr>rows = map (set_decision st v i) (rows d) @ [new_row i p st v], next_id = i + 1\<rparr>"
    by (simp add: d2_def)
  ultimately show ?thesis
    by (simp add: u ri i_def)
qed

text \<open>An answer 201 comes from a parsed payload and three statements that went through.\<close>

lemma apply_route_201:
  assumes "response_code (apply_route fl isEmail d body) = 201"
  shows "\<exists>p. ApplySchema_safeParse isEmail body = Inr p
           \<and> \<not> ensure_fails fl \<and> \<not> insert_fails fl \<and> \<not> update_fails fl"
proof (rule ccontr)
  assume neg: "\<not> ?thesis"
  show False
  proof (cases "ensure_fails fl")
    case True
    with assms show False
      by (simp add: apply_route_ensure_fails internal_error_def)
  next
    case ens: False
    show False
    proof (cases "ApplySchema_safeParse isEmail body")
      case (Inl issues)
      with ens assms show False by (simp add: apply_route_invalid)
    next
      case (Inr p)
      obtain st sc cs where dec: "decision p = (st, sc, cs)"
        by (cases "decision p") auto
      show False
      proof (cases "insert_fails fl")
        case True
        with ens Inr assms show False
          by (simp add: apply_route_insert_fails internal_error_def)
      next
        case ins: False
        with neg ens Inr have "update_fails fl" by simp
        with ens Inr ins dec assms show False
          by (simp add: apply_route_update_fails internal_error_def)
      qed
    qed
  qed
qed

section \<open>The status the route assigns\<close>

text \<open>
  C3. For every application that reaches the decision, the status is \<open>inadmisible\<close>
  (the spec's inadmissible) with no score when \<open>isAdmissible\<close> is false; otherwise the
  score is \<open>computeScore\<close> of the payload, and the status is \<open>aprobada\<close> (approved) when
  \<open>score >= 55\<close> and \<open>rechazada\<close> (rejected) when \<open>score < 55\<close>: a score of 55 is
  approved, a score of 54 is rejected.
\<close>

theorem decision_rule:
  "(\<not> isAdmissible p \<longrightarrow> decision p = (''inadmisible'', None, [Call_isAdmissible]))
   \<and> (isAdmissible p \<longrightarrow>
        fst (snd (decision p)) = Some (computeScore p)
        \<and> (js_ge (computeScore p) (Fin 55) \<longrightarrow> fst (decision p) = ''aprobada'')
        \<and> (js_lt (computeScore p) (Fin 55) \<longrightarrow> fst (decision p) = ''rechazada''))
   \<and> (isAdmissible p \<and> computeScore p = Fin 55 \<longrightarrow> fst (decision p) = ''aprobada'')
   \<and> (isAdmissible p \<and> computeScore p = Fin 54 \<longrightarrow> fst (decision p) = ''rechazada'')"
proof (cases "isAdmissible p")
  case False
  then show ?thesis by (simp add: decision_def)
next
  case True
  have "js_lt (computeScore p) (Fin 55) \<Longrightarrow> \<not> js_ge (computeScore p) (Fin 55)"
    by (rule js_lt_not_ge)
  moreover have "computeScore p = Fin 55 \<Longrightarrow> js_ge (computeScore p) (Fin 55)"
    by (simp add: js_ge_Fin)
  moreover have "computeScore p = Fin 54 \<Longrightarrow> \<not> js_ge (computeScore p) (Fin 55)"
    by (simp add: js_ge_Fin)
  ultimately show ?thesis
    using True by (auto simp: decision_def Let_def)
qed

theorem decision_rule_witness:
  "decision \<lparr>income = Some 6, amount = - 1, term_months = 1,
             rut = ''11.111.111-1'', full_name = ''Ana Soto'', email = ''ana@example.com''\<rparr>
     = (''rechazada'', Some (Fin 54), [Call_isAdmissible, Call_computeScore])
   \<and> fst (decision \<lparr>income = Some 5, amount = - 1, term_months = 1,
             rut = ''11.111.111-1'', full_name = ''Ana Soto'', email = ''ana@example.com''\<rparr>)
     = ''aprobada''
   \<and> fst (decision \<lparr>income = Some 1000000, amount = 1500000, term_months = 24,
             rut = ''11.111.111-1'', full_name = ''Ana Soto'', email = ''ana@example.com''\<rparr>)
     = ''aprobada''
   \<and> decision \<lparr>income = None, amount = 500000, term_months = 12,
             rut = ''11.111.111-1'', full_name = ''Ana Soto'', email = ''ana@example.com''\<rparr>
     = (''inadmisible'', None, [Call_isAdmissible])"
proof -
  let ?p54 = "\<lparr>income = Some 6, amount = - 1, term_months = 1,
             rut = ''11.111.111-1'', full_name = ''Ana Soto'', email = ''ana@example.com''\<rparr>"
  let ?p55 = "\<lparr>income = Some 5, amount = - 1, term_months = 1,
             rut = ''11.111.111-1'', full_name = ''Ana Soto'', email = ''ana@example.com''\<rparr>"
  let ?pA = "\<lparr>income = Some 1000000, amount = 1500000, term_months = 24,
             rut = ''11.111.111-1'', full_name = ''Ana Soto'', email = ''ana@example.com''\<rparr>"
  let ?pC = "\<lparr>income = None, amount = 500000, term_months = 12,
             rut = ''11.111.111-1'', full_name = ''Ana Soto'', email = ''ana@example.com''\<rparr>"
  have a: "isAdmissible ?p54" "isAdmissible ?p55" "isAdmissible ?pA" "\<not> isAdmissible ?pC"
    by (simp_all add: isAdmissible_def js_truthy_Fin js_mul_Fin js_le_Fin round_double_False
        nearest_numeral)
  have s: "computeScore ?p54 = Fin 54" "computeScore ?p55 = Fin 55" "computeScore ?pA = Fin 76"
    by (simp_all add: computeScore_def js_truthy_Fin js_div_Fin js_add_Fin round_double_False
        round_double_True nearest_numeral nearest_1 Math_min_Fin Math_max_Fin
        Math_round_Fin_nonneg floor_rat)
  have "snd (snd (decision ?p54)) = [Call_isAdmissible, Call_computeScore]"
    using a(1) by (simp add: decision_def Let_def)
  then show ?thesis
    using decision_rule [of ?p54] decision_rule [of ?p55] decision_rule [of ?pA]
      decision_rule [of ?pC] a s
    by (simp add: js_ge_Fin prod_eq_iff)
qed

section \<open>The invariant of the table\<close>

lemma row_ok_pending: "row_ok (new_row i p ''pendiente'' None)"
  by (simp add: row_ok_def new_row_def)

lemma row_ok_decided:
  assumes "(st = ''inadmisible'' \<and> v = None)
         \<or> (st = ''aprobada'' \<and> (\<exists>n. v = Some n \<and> 60 \<le> n \<and> n \<le> 100))"
  shows "row_ok (new_row i p st v)" and "row_ok (set_decision st v i r) = (row_id r = i \<or> row_ok r)"
proof -
  have ab: "row_ok (new_row i p st v) \<and> row_ok (r\<lparr>status := st, scoring := v\<rparr>)"
    using assms
  proof (elim disjE conjE exE)
    assume "st = ''inadmisible''" and "v = None"
    then show ?thesis by (simp add: row_ok_def new_row_def)
  next
    fix n assume "st = ''aprobada''" and "v = Some n" and "60 \<le> n" and "n \<le> 100"
    then show ?thesis by (simp add: row_ok_def new_row_def)
  qed
  then show "row_ok (new_row i p st v)" by simp
  from ab show "row_ok (set_decision st v i r) = (row_id r = i \<or> row_ok r)"
    by (simp add: set_decision_def)
qed

lemma apply_route_preserves:
  assumes "\<forall>r\<in>set (rows d). row_ok r"
  shows "\<forall>r\<in>set (rows (db_after (apply_route fl isEmail d body))). row_ok r"
proof (cases "ensure_fails fl")
  case True
  with assms show ?thesis
    by (simp add: apply_route_ensure_fails internal_error_def)
next
  case ens: False
  show ?thesis
  proof (cases "ApplySchema_safeParse isEmail body")
    case (Inl issues)
    with ens assms show ?thesis by (simp add: apply_route_invalid)
  next
    case (Inr p)
    from decision_stored [OF Inr] obtain st sc cs v where
      dec: "decision p = (st, sc, cs)"
      and cv: "(case sc of None \<Rightarrow> Some None | Some s \<Rightarrow> map_option Some (to_int4 s)) = Some v"
      and ok: "(st = ''inadmisible'' \<and> v = None)
             \<or> (st = ''aprobada'' \<and> (\<exists>n. v = Some n \<and> 60 \<le> n \<and> n \<le> 100))"
      by blast
    show ?thesis
    proof (cases "insert_fails fl")
      case True
      with ens Inr assms show ?thesis
        by (simp add: apply_route_insert_fails internal_error_def)
    next
      case ins: False
      show ?thesis
      proof (cases "update_fails fl")
        case True
        with ens Inr ins dec assms show ?thesis
          by (simp add: apply_route_update_fails internal_error_def row_ok_pending)
      next
        case False
        with ens ins Inr dec cv assms show ?thesis
          by (simp add: apply_route_created [where p = p] row_ok_decided [OF ok])
      qed
    qed
  qed
qed

lemma serve_preserves:
  "\<forall>r\<in>set (rows d). row_ok r \<Longrightarrow> \<forall>r\<in>set (rows (serve isEmail d reqs)). row_ok r"
proof (induction reqs arbitrary: d)
  case Nil
  then show ?case by simp
next
  case (Cons req reqs)
  obtain fl body where req: "req = (fl, body)" by (cases req)
  from Cons.prems have "\<forall>r\<in>set (rows (db_after (apply_route fl isEmail d body))). row_ok r"
    by (rule apply_route_preserves)
  then show ?case
    unfolding req serve.simps by (rule Cons.IH)
qed

text \<open>
  C4. In every state the server reaches from the empty table, for every row: the score
  is set if and only if the status is \<open>rechazada\<close> or \<open>aprobada\<close>; for a decided row
  (one that is no longer \<open>pendiente\<close>) the score is null if and only if the status is
  \<open>inadmisible\<close>; and a score that is set is an integer in \<open>[1, 100]\<close>.
\<close>

theorem decided_rows_consistent:
  "\<forall>r\<in>set (rows (serve isEmail empty_db reqs)).
     (scoring r \<noteq> None \<longleftrightarrow> status r = ''rechazada'' \<or> status r = ''aprobada'')
     \<and> (status r \<noteq> ''pendiente'' \<longrightarrow> (scoring r = None \<longleftrightarrow> status r = ''inadmisible''))
     \<and> (\<forall>s. scoring r = Some s \<longrightarrow> 1 \<le> s \<and> s \<le> 100)"
proof
  fix r assume "r \<in> set (rows (serve isEmail empty_db reqs))"
  moreover have "\<forall>r\<in>set (rows empty_db). row_ok r"
    by (simp add: empty_db_def)
  ultimately have "row_ok r"
    using serve_preserves by blast
  then show "(scoring r \<noteq> None \<longleftrightarrow> status r = ''rechazada'' \<or> status r = ''aprobada'')
     \<and> (status r \<noteq> ''pendiente'' \<longrightarrow> (scoring r = None \<longleftrightarrow> status r = ''inadmisible''))
     \<and> (\<forall>s. scoring r = Some s \<longrightarrow> 1 \<le> s \<and> s \<le> 100)"
    by (auto simp: row_ok_def split: option.splits)
qed

lemma sample_fields:
  "get_prop sample_body ''rut'' = JStr ''11.111.111-1''"
  "get_prop sample_body ''full_name'' = JStr ''Ana Soto''"
  "get_prop sample_body ''email'' = JStr ''ana@example.com''"
  "get_prop sample_body ''amount'' = JNum 500000"
  "get_prop sample_body ''term_months'' = JNum 12"
  "get_prop sample_body ''income'' = JUndefined"
  "sample_isEmail ''ana@example.com''"
  by (simp_all add: get_prop_def sample_body_def sample_isEmail_def)

lemma get_prop_upd:
  "get_prop (b(k \<mapsto> v)) k' = (if k' = k then v else get_prop b k')"
  by (simp add: get_prop_def)

lemma nearest_sample_burden: "nearest (500000 / 12) = 5726623061333333 / 2 ^ 37"
  by (rule nearest_at [where e = 15 and m = 5726623061333333]) (simp_all add: eval_simps)

lemma nearest_sample_ratio: "nearest (1000000 / (5726623061333333 / 2 ^ 37)) = 24"
  by (rule nearest_at [where e = 4 and m = 6755399441055744]) (simp_all add: eval_simps)

lemma sample_burden: "js_div (Fin 500000) (Fin 12) = Fin (5726623061333333 / 137438953472)"
  using nearest_sample_burden by (simp add: js_div_Fin_pos round_double_False)

lemma sample_ratio: "js_div (Fin 1000000) (Fin (5726623061333333 / 137438953472)) = Fin 24"
  using nearest_sample_ratio by (simp add: js_div_Fin_pos round_double_False)

lemma sample_base: "js_add (Fin 60) (Fin 24) = Fin 84"
  by (simp add: js_add_Fin round_double_False nearest_numeral)

lemma sample_run:
  "apply_route no_faults sample_isEmail empty_db (sample_body(''income'' \<mapsto> JNum 1000000)) =
     \<lparr>response_code = 201,
      response_body = [(''id'', JNum 1), (''status'', JStr ''aprobada''), (''scoring'', JNum 84)],
      db_after =
        \<lparr>rows = [\<lparr>row_id = 1, row_rut = ''11.111.111-1'', row_full_name = ''Ana Soto'',
                   row_email = ''ana@example.com'', row_amount = 500000,
                   row_term_months = 12, row_income = Some 1000000,
                   status = ''aprobada'', scoring = Some 84\<rparr>],
         next_id = 2\<rparr>,
      engine_calls = [Call_isAdmissible, Call_computeScore]\<rparr>"
proof -
  let ?p = "\<lparr>income = Some 1000000, amount = 500000, term_months = 12,
             rut = ''11.111.111-1'', full_name = ''Ana Soto'', email = ''ana@example.com''\<rparr>"
  have parse: "ApplySchema_safeParse sample_isEmail (sample_body(''income'' \<mapsto> JNum 1000000))
                 = Inr ?p"
    by (simp add: ApplySchema_safeParse_def get_prop_upd sample_fields)
  have "isAdmissible ?p"
    by (simp add: isAdmissible_def js_truthy_Fin js_mul_Fin js_le_Fin round_double_False
        nearest_numeral)
  moreover have "computeScore ?p = Fin 84"
    using computeScore_base [of ?p 1000000]
    by (simp add: sample_burden sample_ratio sample_base round_then_clamp_cases)
  ultimately have dec: "decision ?p
      = (''aprobada'', Some (Fin 84), [Call_isAdmissible, Call_computeScore])"
    by (simp add: decision_def js_ge_Fin)
  have cv: "(case Some (Fin 84) of None \<Rightarrow> Some None
             | Some s \<Rightarrow> map_option Some (to_int4 s)) = Some (Some 84)"
    by simp
  have "numeric_2 500000 = 500000" and "numeric_2 1000000 = 1000000"
    by (simp_all add: numeric_2_def floor_rat)
  then show ?thesis
    using apply_route_created [OF _ _ _ parse dec cv, of no_faults empty_db]
    by (simp add: no_faults_def empty_db_def new_row_def)
qed

theorem decided_rows_consistent_witness:
  "\<lparr>row_id = 1, row_rut = ''11.111.111-1'', row_full_name = ''Ana Soto'',
     row_email = ''ana@example.com'', row_amount = 500000,
     row_term_months = 12, row_income = Some 1000000,
     status = ''aprobada'', scoring = Some 84\<rparr>
     \<in> set (rows (serve sample_isEmail empty_db
                     [(no_faults, sample_body(''income'' \<mapsto> JNum 1000000))]))
   \<and> ''aprobada'' \<noteq> ''pendiente'' \<and> (1::int) \<le> 84 \<and> (84::int) \<le> 100"
  using decided_rows_consistent
      [of sample_isEmail "[(no_faults, sample_body(''income'' \<mapsto> JNum 1000000))]"]
  by (simp add: sample_run)

section \<open>Scenario C: no income, or an income of zero\<close>

lemma safeParse_scenario_absent:
  assumes "get_prop body ''rut'' = JStr r" and "3 \<le> length r"
    and "get_prop body ''full_name'' = JStr f" and "3 \<le> length f"
    and "get_prop body ''email'' = JStr e" and "isEmail e"
    and "get_prop body ''amount'' = JNum 500000"
    and "get_prop body ''term_months'' = JNum 12"
    and "get_prop body ''income'' = JUndefined"
  shows "ApplySchema_safeParse isEmail body =
           Inr \<lparr>income = None, amount = 500000, term_months = 12,
                rut = r, full_name = f, email = e\<rparr>"
  using assms by (simp add: ApplySchema_safeParse_def)

lemma safeParse_scenario_zero:
  assumes "get_prop body ''rut'' = JStr r" and "3 \<le> length r"
    and "get_prop body ''full_name'' = JStr f" and "3 \<le> length f"
    and "get_prop body ''email'' = JStr e" and "isEmail e"
    and "get_prop body ''amount'' = JNum 500000"
    and "get_prop body ''term_months'' = JNum 12"
    and "get_prop body ''income'' = JNum 0"
  shows "ApplySchema_safeParse isEmail body = Inl [''income'']"
  using assms by (simp add: ApplySchema_safeParse_def issue_def)

text \<open>
  C5, as amended. For every submission with amount 500000, a term of 12 months, a rut
  and a full name of three characters or more and a valid e-mail address: when the
  income is absent and the three statements go through, the application is registered
  and decided \<open>inadmisible\<close> with a null score; when the income is \<open>0\<close>, nothing is
  registered and no rule is called, and the answer is 400 \<open>invalid_payload\<close> naming
  \<open>income\<close> (an income that is present must be \<open>> 0\<close>) when the statement that creates
  the table has gone through, and 500 \<open>internal_error\<close> when it has not.
\<close>

theorem scenario_C_absent_or_zero_income:
  assumes "get_prop body ''rut'' = JStr r" and "3 \<le> length r"
    and "get_prop body ''full_name'' = JStr f" and "3 \<le> length f"
    and "get_prop body ''email'' = JStr e" and "isEmail e"
    and "get_prop body ''amount'' = JNum 500000"
    and "get_prop body ''term_months'' = JNum 12"
  shows "(get_prop body ''income'' = JUndefined
            \<and> \<not> ensure_fails fl \<and> \<not> insert_fails fl \<and> \<not> update_fails fl \<longrightarrow>
          response_code (apply_route fl isEmail d body) = 201
          \<and> response_body (apply_route fl isEmail d body)
              = [(''id'', JNum (of_nat (next_id d))), (''status'', JStr ''inadmisible''),
                 (''scoring'', JNull)]
          \<and> new_row (next_id d)
               \<lparr>income = None, amount = 500000, term_months = 12,
                rut = r, full_name = f, email = e\<rparr> ''inadmisible'' None
              \<in> set (rows (db_after (apply_route fl isEmail d body))))
       \<and> (get_prop body ''income'' = JNum 0 \<longrightarrow>
          db_after (apply_route fl isEmail d body) = d
          \<and> engine_calls (apply_route fl isEmail d body) = []
          \<and> (\<not> ensure_fails fl \<longrightarrow>
                response_code (apply_route fl isEmail d body) = 400
                \<and> response_body (apply_route fl isEmail d body)
                    = [(''error'', JStr ''invalid_payload''),
                       (''details'', JArr [JStr ''income''])])
          \<and> (ensure_fails fl \<longrightarrow>
                response_code (apply_route fl isEmail d body) = 500
                \<and> response_body (apply_route fl isEmail d body)
                    = [(''error'', JStr ''internal_error'')]))"
proof (intro conjI impI)
  let ?p = "\<lparr>income = None, amount = 500000, term_months = 12,
             rut = r, full_name = f, email = e\<rparr>"
  assume h: "get_prop body ''income'' = JUndefined
            \<and> \<not> ensure_fails fl \<and> \<not> insert_fails fl \<and> \<not> update_fails fl"
  then have parse: "ApplySchema_safeParse isEmail body = Inr ?p"
    using assms by (simp add: safeParse_scenario_absent)
  have "\<not> isAdmissible ?p"
    by (simp add: isAdmissible_def js_truthy_Fin)
  then have dec: "decision ?p = (''inadmisible'', None, [Call_isAdmissible])"
    by (simp add: decision_def)
  have run: "apply_route fl isEmail d body =
     \<lparr>response_code = 201,
      response_body = [(''id'', JNum (of_nat (next_id d))), (''status'', JStr ''inadmisible''),
                       (''scoring'', (case None of None \<Rightarrow> JNull | Some k \<Rightarrow> JNum (of_int k)))],
      db_after =
        \<lparr>rows = map (set_decision ''inadmisible'' None (next_id d)) (rows d)
                  @ [new_row (next_id d) ?p ''inadmisible'' None],
         next_id = next_id d + 1\<rparr>,
      engine_calls = [Call_isAdmissible]\<rparr>"
    using h by (intro apply_route_created [OF _ _ _ parse dec]) simp_all
  show "response_code (apply_route fl isEmail d body) = 201"
    by (simp add: run)
  show "response_body (apply_route fl isEmail d body)
              = [(''id'', JNum (of_nat (next_id d))), (''status'', JStr ''inadmisible''),
                 (''scoring'', JNull)]"
    by (simp add: run)
  show "new_row (next_id d) ?p ''inadmisible'' None
              \<in> set (rows (db_after (apply_route fl isEmail d body)))"
    by (simp add: run)
next
  assume h: "get_prop body ''income'' = JNum 0"
  then have parse: "ApplySchema_safeParse isEmail body = Inl [''income'']"
    using assms by (simp add: safeParse_scenario_zero)
  have run: "apply_route fl isEmail d body =
           \<lparr>response_code = 400,
            response_body = [(''error'', JStr ''invalid_payload''),
                             (''details'', JArr (map JStr [''income'']))],
            db_after = d, engine_calls = []\<rparr>" if "\<not> ensure_fails fl"
    using that parse by (rule apply_route_invalid)
  have down: "apply_route fl isEmail d body = internal_error d []" if "ensure_fails fl"
    using that by (rule apply_route_ensure_fails)
  show "db_after (apply_route fl isEmail d body) = d"
    using run down by (cases "ensure_fails fl") (simp_all add: internal_error_def)
  show "engine_calls (apply_route fl isEmail d body) = []"
    using run down by (cases "ensure_fails fl") (simp_all add: internal_error_def)
  show "response_code (apply_route fl isEmail d body) = 400" if "\<not> ensure_fails fl"
    using run [OF that] by simp
  show "response_body (apply_route fl isEmail d body)
      = [(''error'', JStr ''invalid_payload''), (''details'', JArr [JStr ''income''])]"
    if "\<not> ensure_fails fl"
    using run [OF that] by simp
  show "response_code (apply_route fl isEmail d body) = 500" if "ensure_fails fl"
    using down [OF that] by (simp add: internal_error_def)
  show "response_body (apply_route fl isEmail d body) = [(''error'', JStr ''internal_error'')]"
    if "ensure_fails fl"
    using down [OF that] by (simp add: internal_error_def)
qed

theorem scenario_C_absent_or_zero_income_witness:
  "response_body (apply_route no_faults sample_isEmail empty_db sample_body)
     = [(''id'', JNum 1), (''status'', JStr ''inadmisible''), (''scoring'', JNull)]
   \<and> response_body
       (apply_route no_faults sample_isEmail empty_db (sample_body(''income'' \<mapsto> JNum 0)))
     = [(''error'', JStr ''invalid_payload''), (''details'', JArr [JStr ''income''])]
   \<and> response_code
       (apply_route (no_faults\<lparr>ensure_fails := True\<rparr>) sample_isEmail empty_db
          (sample_body(''income'' \<mapsto> JNum 0))) = 500"
  using scenario_C_absent_or_zero_income
      [of sample_body "''11.111.111-1''" "''Ana Soto''" "''ana@example.com''" sample_isEmail
          no_faults empty_db]
    scenario_C_absent_or_zero_income
      [of "sample_body(''income'' \<mapsto> JNum 0)" "''11.111.111-1''" "''Ana Soto''"
          "''ana@example.com''" sample_isEmail no_faults empty_db]
    scenario_C_absent_or_zero_income
      [of "sample_body(''income'' \<mapsto> JNum 0)" "''11.111.111-1''" "''Ana Soto''"
          "''ana@example.com''" sample_isEmail "no_faults\<lparr>ensure_fails := True\<rparr>" empty_db]
  by (simp add: sample_fields get_prop_upd no_faults_def empty_db_def)

text \<open>
  C5 as first stated has the submission with income \<open>0\<close> accepted for decision. It is
  answered with 400 and leaves no row behind.
\<close>

theorem zero_income_rejected_counterexample:
  "response_code
     (apply_route no_faults sample_isEmail empty_db (sample_body(''income'' \<mapsto> JNum 0))) = 400
   \<and> db_after
     (apply_route no_faults sample_isEmail empty_db (sample_body(''income'' \<mapsto> JNum 0)))
       = empty_db
   \<and> engine_calls
     (apply_route no_faults sample_isEmail empty_db (sample_body(''income'' \<mapsto> JNum 0))) = []"
proof -
  have "ApplySchema_safeParse sample_isEmail (sample_body(''income'' \<mapsto> JNum 0))
          = Inl [''income'']"
    by (simp add: ApplySchema_safeParse_def get_prop_upd sample_fields issue_def)
  then show ?thesis
    by (simp add: apply_route_invalid no_faults_def)
qed

section \<open>The answer to a decided submission\<close>

text \<open>
  C6, as amended. For every successfully decided submission the object sent back has
  the application identifier under \<open>id\<close> (the identifier of the registered row), a field
  \<open>status\<close> whose value is one of the strings \<open>inadmisible\<close>, \<open>rechazada\<close>,
  \<open>aprobada\<close>, and a field named \<open>scoring\<close> holding an integer or null.
\<close>

theorem created_response_shape:
  assumes "response_code (apply_route fl isEmail d body) = 201"
  shows "\<exists>st v. response_body (apply_route fl isEmail d body)
                  = [(''id'', JNum (of_nat (next_id d))), (''status'', JStr st),
                     (''scoring'', (case v of None \<Rightarrow> JNull | Some k \<Rightarrow> JNum (of_int k)))]
           \<and> (st = ''inadmisible'' \<or> st = ''rechazada'' \<or> st = ''aprobada'')
           \<and> (\<exists>r\<in>set (rows (db_after (apply_route fl isEmail d body))).
                 row_id r = next_id d \<and> status r = st \<and> scoring r = v)"
proof -
  from apply_route_201 [OF assms] obtain p where
    parse: "ApplySchema_safeParse isEmail body = Inr p"
    and fl: "\<not> ensure_fails fl" "\<not> insert_fails fl" "\<not> update_fails fl"
    by blast
  from decision_stored [OF parse] obtain st sc cs v where
    dec: "decision p = (st, sc, cs)"
    and cv: "(case sc of None \<Rightarrow> Some None | Some s \<Rightarrow> map_option Some (to_int4 s)) = Some v"
    and ok: "(st = ''inadmisible'' \<and> v = None)
           \<or> (st = ''aprobada'' \<and> (\<exists>n. v = Some n \<and> 60 \<le> n \<and> n \<le> 100))"
    by blast
  note run = apply_route_created [OF fl parse dec cv, of d]
  have "new_row (next_id d) p st v \<in> set (rows (db_after (apply_route fl isEmail d body)))"
    by (simp add: run)
  moreover have "row_id (new_row (next_id d) p st v) = next_id d
      \<and> status (new_row (next_id d) p st v) = st \<and> scoring (new_row (next_id d) p st v) = v"
    by (simp add: new_row_def)
  ultimately have "\<exists>r\<in>set (rows (db_after (apply_route fl isEmail d body))).
                 row_id r = next_id d \<and> status r = st \<and> scoring r = v"
    by blast
  moreover have "response_body (apply_route fl isEmail d body)
                  = [(''id'', JNum (of_nat (next_id d))), (''status'', JStr st),
                     (''scoring'', (case v of None \<Rightarrow> JNull | Some k \<Rightarrow> JNum (of_int k)))]"
    by (simp add: run)
  moreover have "st = ''inadmisible'' \<or> st = ''rechazada'' \<or> st = ''aprobada''"
    using ok by blast
  ultimately show ?thesis by blast
qed

theorem created_response_shape_witness:
  "response_code
     (apply_route no_faults sample_isEmail empty_db (sample_body(''income'' \<mapsto> JNum 1000000)))
     = 201
   \<and> response_body
     (apply_route no_faults sample_isEmail empty_db (sample_body(''income'' \<mapsto> JNum 1000000)))
     = [(''id'', JNum 1), (''status'', JStr ''aprobada''), (''scoring'', JNum 84)]"
proof -
  have c: "response_code
     (apply_route no_faults sample_isEmail empty_db (sample_body(''income'' \<mapsto> JNum 1000000)))
     = 201"
    by (simp add: sample_run)
  from created_response_shape [OF c] obtain st v where
    b: "response_body
          (apply_route no_faults sample_isEmail empty_db
             (sample_body(''income'' \<mapsto> JNum 1000000)))
        = [(''id'', JNum (of_nat (next_id empty_db))), (''status'', JStr st),
           (''scoring'', (case v of None \<Rightarrow> JNull | Some k \<Rightarrow> JNum (of_int k)))]"
    by blast
  have "next_id empty_db = 1"
    by (simp add: empty_db_def)
  moreover have "st = ''aprobada''"
    using b by (simp add: sample_run)
  moreover have "(case v of None \<Rightarrow> JNull | Some k \<Rightarrow> JNum (of_int k)) = JNum 84"
    using b by (simp add: sample_run)
  ultimately show ?thesis
    using b c by simp
qed

text \<open>
  C6 as first stated names the strings \<open>inadmissible\<close>, \<open>rejected\<close>, \<open>approved\<close> and a
  field \<open>score\<close>. The route answers in Spanish and calls the field \<open>scoring\<close>.
\<close>

theorem created_response_fields_counterexample:
  "response_code
     (apply_route no_faults sample_isEmail empty_db (sample_body(''income'' \<mapsto> JNum 1000000)))
     = 201
   \<and> response_body
     (apply_route no_faults sample_isEmail empty_db (sample_body(''income'' \<mapsto> JNum 1000000)))
     = [(''id'', JNum 1), (''status'', JStr ''aprobada''), (''scoring'', JNum 84)]
   \<and> map_of (response_body
     (apply_route no_faults sample_isEmail empty_db (sample_body(''income'' \<mapsto> JNum 1000000))))
       ''score'' = None
   \<and> JStr ''aprobada'' \<notin> {JStr ''inadmissible'', JStr ''rejected'', JStr ''approved''}"
  by (simp add: sample_run)

section \<open>A payload that fails validation\<close>

text \<open>
  C10, as amended. For every submission whose payload fails validation no rule is
  called and the table is left as it was; when the statement that creates the table
  has gone through, the answer is 400 with the validation error and its offending
  fields, and when it has not, the answer is 500.
\<close>

theorem invalid_payload_before_engine:
  assumes "ApplySchema_safeParse isEmail body = Inl issues"
  shows "engine_calls (apply_route fl isEmail d body) = []
       \<and> db_after (apply_route fl isEmail d body) = d
       \<and> issues \<noteq> []
       \<and> (\<not> ensure_fails fl \<longrightarrow>
            response_code (apply_route fl isEmail d body) = 400
            \<and> response_body (apply_route fl isEmail d body)
                = [(''error'', JStr ''invalid_payload''),
                   (''details'', JArr (map JStr issues))])
       \<and> (ensure_fails fl \<longrightarrow>
            response_code (apply_route fl isEmail d body) = 500
            \<and> response_body (apply_route fl isEmail d body)
                = [(''error'', JStr ''internal_error'')])"
proof (cases "ensure_fails fl")
  case True
  then show ?thesis
    using safeParse_Inl [OF assms]
    by (simp add: apply_route_ensure_fails internal_error_def)
next
  case False
  then show ?thesis
    using safeParse_Inl [OF assms]
    by (simp add: apply_route_invalid [OF False assms])
qed

lemma sample_invalid:
  "ApplySchema_safeParse sample_isEmail (sample_body(''amount'' \<mapsto> JNum (- 5))) = Inl [''amount'']"
  by (simp add: ApplySchema_safeParse_def get_prop_upd sample_fields issue_def)

theorem invalid_payload_before_engine_witness:
  "apply_route no_faults sample_isEmail empty_db (sample_body(''amount'' \<mapsto> JNum (- 5)))
     = \<lparr>response_code = 400,
        response_body = [(''error'', JStr ''invalid_payload''),
                         (''details'', JArr [JStr ''amount''])],
        db_after = empty_db, engine_calls = []\<rparr>"
  using invalid_payload_before_engine [OF sample_invalid, of no_faults empty_db]
  by (cases "apply_route no_faults sample_isEmail empty_db (sample_body(''amount'' \<mapsto> JNum (- 5)))")
     (simp add: no_faults_def)

text \<open>
  C10 as first stated promises the validation error for every such payload. The route
  creates the table before it parses the body; with the database out of reach the
  answer is \<open>internal_error\<close>.
\<close>

theorem invalid_payload_database_down_counterexample:
  "ApplySchema_safeParse sample_isEmail (sample_body(''amount'' \<mapsto> JNum (- 5)))
     = Inl [''amount'']
   \<and> apply_route (no_faults\<lparr>ensure_fails := True\<rparr>) sample_isEmail empty_db
        (sample_body(''amount'' \<mapsto> JNum (- 5)))
     = \<lparr>response_code = 500, response_body = [(''error'', JStr ''internal_error'')],
        db_after = empty_db, engine_calls = []\<rparr>"
  by (simp add: sample_invalid apply_route_ensure_fails no_faults_def internal_error_def)

end
